theory Spec2Isabelle
  imports Main "HOL-Library.Word"
begin

unbundle bit_operations_syntax

section \<open>Shared types of package sched\<close>

text \<open>
  \<open>trace.Timestamp\<close> is a Go \<open>int64\<close>: subtraction wraps around, so it is a 64-bit word
  (read as a signed number with \<open>sint\<close>). CPU, PID and string identifiers are \<open>int64\<close>
  values that the code only compares and orders, and event indices are Go \<open>int\<close>s; they
  are integers. A Go map is an association list in the order in which \<open>range\<close> happens to
  visit it (a Go map has each key once); a Go set \<open>map[K]struct{}\<close> is the list of its keys.
\<close>

type_synonym Timestamp = "64 word"
type_synonym CPUID = int
type_synonym PID = int
type_synonym stringID = int

datatype code = InvalidArgument | Internal

text \<open>
  \<open>StatusError\<close> is \<open>status.Errorf(code, msg)\<close>, \<open>Errorf\<close> is \<open>fmt.Errorf\<close>, and
  \<open>Collaborator\<close> is an error returned by code that is declared in other files of the package.
\<close>

datatype error =
    StatusError code string
  | Errorf string error
  | Collaborator string

record Event =
  Index :: int
  Name :: string
  CPU :: int
  Timestamp :: Timestamp
  Clipped :: bool
  TextProperties :: "(string \<times> string) list"
  NumberProperties :: "(string \<times> int) list"

datatype threadState = UnknownState | RunningState | WaitingState | SleepingState

text \<open>
  Modelled from the spec: \<open>threadTransition\<close> and \<open>threadSpan\<close> are declared in other files of the
  package; the fields are those of the specification's data model. The collection's code
  reads and writes \<open>tt.Timestamp\<close>, \<open>span.cpu\<close> and \<open>span.pid\<close> only.
\<close>

record threadTransition =
  EventID :: int
  ttPID :: PID
  ttTimestamp :: Timestamp
  PrevCPU :: CPUID
  NextCPU :: CPUID
  PrevState :: threadState
  NextState :: threadState
  PrevCommand :: stringID
  NextCommand :: stringID
  PrevPriority :: int
  NextPriority :: int

record threadSpan =
  pid :: PID
  cpu :: CPUID
  state :: threadState
  command :: stringID
  priority :: int
  spanStart :: Timestamp
  spanEnd :: Timestamp

text \<open>
  \<open>collectionOptions\<close>: the collection's code uses the fields \<open>loaders\<close> (nil until an option or
  the default sets it) and \<open>normalizeTimestamps\<close>. A loader map is kept abstract (\<open>'l\<close>).
\<close>

record 'l collectionOptions =
  loaders :: "'l option"
  normalizeTimestamps :: bool

text \<open>
  The \<open>Collection\<close> struct. An interval tree is represented by the list of the spans it holds.
\<close>

record 'l Collection =
  stringTable :: "stringID \<rightharpoonup> string"
  normalizationOffset :: Timestamp
  runningSpansByCPU :: "(CPUID \<times> threadSpan list) list"
  sleepingSpansByCPU :: "(CPUID \<times> threadSpan list) list"
  waitingSpansByCPU :: "(CPUID \<times> threadSpan list) list"
  spansByPID :: "(PID \<times> threadSpan list) list"
  options :: "'l collectionOptions"
  cpus :: "CPUID list"
  pids :: "PID list"
  startTimestamp :: Timestamp
  endTimestamp :: Timestamp
  TraceCollection :: "Event list"
  ThreadTransitions :: "threadTransition list"
  droppedEventCountsByID :: "(int \<times> int) list"
  syntheticTransitionCount :: int

section \<open>Queries of the collection\<close>

text \<open>
  Modelled from the spec: \<open>UnknownCommand\<close> is declared in other files of the package; the
  specification reserves string ID 0 for it.
\<close>

definition UnknownCommand :: stringID where
  "UnknownCommand = 0"

text \<open>
  Modelled from the spec: \<open>stringTable.stringByID\<close> is declared in other files of the package;
  the specification's \<open>lookup(id)\<close> returns the stored string or fails.
\<close>

definition stringByID :: "(stringID \<rightharpoonup> string) \<Rightarrow> stringID \<Rightarrow> error + string" where
  "stringByID st i = (case st i of None \<Rightarrow> Inl (Collaborator ''UnknownStringError'') | Some s \<Rightarrow> Inr s)"

definition LookupCommand :: "'l Collection \<Rightarrow> stringID \<Rightarrow> error + string" where
  "LookupCommand c cmd =
     (if cmd = UnknownCommand then Inr ''<unknown>''
      else (case stringByID (stringTable c) cmd of
              Inl err \<Rightarrow> Inl (StatusError Internal ''failed to find command for id %d'')
            | Inr commStr \<Rightarrow> Inr commStr))"

definition NormalizationOffset :: "'l Collection \<Rightarrow> Timestamp" where
  "NormalizationOffset c = normalizationOffset c"


definition SyntheticTransitionCount :: "'l Collection \<Rightarrow> int" where
  "SyntheticTransitionCount c = syntheticTransitionCount c"

text \<open>
  Modelled from the spec: \<open>Filter\<close> and \<open>buildFilter\<close> are declared outside the files at
  hand. Filters compose by intersection, starting from the collection's cached interval,
  CPUs and PIDs; an event-name filter touches none of these.
\<close>

datatype Filter =
    Filter_TimeRange Timestamp Timestamp
  | Filter_StartTimestamp Timestamp
  | Filter_EndTimestamp Timestamp
  | Filter_CPUs "CPUID list"
  | Filter_PIDs "PID list"
  | Filter_EventNames "string list"

record filter =
  f_startTimestamp :: Timestamp
  f_endTimestamp :: Timestamp
  f_cpus :: "CPUID list"
  f_pids :: "PID list"

definition ts_max :: "Timestamp \<Rightarrow> Timestamp \<Rightarrow> Timestamp" where
  "ts_max a b = (if sint a < sint b then b else a)"

definition ts_min :: "Timestamp \<Rightarrow> Timestamp \<Rightarrow> Timestamp" where
  "ts_min a b = (if sint b < sint a then b else a)"

fun applyFilter :: "filter \<Rightarrow> Filter \<Rightarrow> filter" where
  "applyFilter f (Filter_TimeRange s e) =
     f\<lparr>f_startTimestamp := ts_max (f_startTimestamp f) s, f_endTimestamp := ts_min (f_endTimestamp f) e\<rparr>"
| "applyFilter f (Filter_StartTimestamp s) = f\<lparr>f_startTimestamp := ts_max (f_startTimestamp f) s\<rparr>"
| "applyFilter f (Filter_EndTimestamp e) = f\<lparr>f_endTimestamp := ts_min (f_endTimestamp f) e\<rparr>"
| "applyFilter f (Filter_CPUs xs) = f\<lparr>f_cpus := filter (\<lambda>x. x \<in> set xs) (f_cpus f)\<rparr>"
| "applyFilter f (Filter_PIDs xs) = f\<lparr>f_pids := filter (\<lambda>x. x \<in> set xs) (f_pids f)\<rparr>"
| "applyFilter f (Filter_EventNames ns) = f"

definition buildFilter :: "'l Collection \<Rightarrow> Filter list \<Rightarrow> filter" where
  "buildFilter c filters =
     foldl applyFilter
       \<lparr>f_startTimestamp = startTimestamp c, f_endTimestamp = endTimestamp c,
        f_cpus = cpus c, f_pids = pids c\<rparr> filters"


definition CPUs :: "'l Collection \<Rightarrow> Filter list \<Rightarrow> CPUID list" where
  "CPUs c filters = (let f = buildFilter c filters in f_cpus f)"

text \<open>
  \<open>ExpandCPUs\<close>: a non-empty slice is returned as it is; for an empty one the keys of
  \<open>c.CPUs()\<close> are appended in the order of \<open>range\<close> and sorted under \<open><\<close>.
\<close>

definition ExpandCPUs :: "'l Collection \<Rightarrow> int list \<Rightarrow> int list" where
  "ExpandCPUs c xs = (if length xs = 0 then sort (CPUs c []) else xs)"

section \<open>Construction of a collection\<close>

text \<open>
  Modelled from the spec: the \<open>EventSet\<close> message and \<open>trace.NewCollection\<close> are declared
  in other files of the package. The event set carries its events in insertion order and the
  tag of its default loaders; the trace collection made from it holds the same events,
  \<open>EventCount\<close> is their number and \<open>EventByIndex\<close> reads one of them by value.
\<close>

record EventSet =
  Events :: "Event list"
  DefaultLoadersType :: nat

definition EventCount :: "Event list \<Rightarrow> int" where
  "EventCount coll = int (length coll)"

definition EventByIndex :: "Event list \<Rightarrow> int \<Rightarrow> error + Event" where
  "EventByIndex coll i =
     (if 0 \<le> i \<and> i < EventCount coll then Inr (coll ! nat i)
      else Inl (Collaborator ''event index out of range''))"

text \<open>
  The declarations of packages \<open>sched\<close> and \<open>trace\<close> that the collection's code uses and
  that are made in other files are parameters of the model. \<open>Unknown\<close> and
  \<open>UnknownTimestamp\<close> are one field:
  the code initialises \<open>normalizationOffset\<close> with the first and tests it against the
  second to see whether it has been set. The event loader (\<open>'el\<close>) owns the string bank, so
  translating an event returns the loader's new state; \<open>threadSpanSet\<close> is \<open>'ts\<close>.
  \<open>traceCollectionError\<close> and \<open>cpuTreesError\<close> are the failures of \<open>trace.NewCollection\<close>
  and of \<open>cpuSpanSet.cpuTrees\<close>.
\<close>

record ('l, 'el, 'ts) schedEnv =
  UnknownTimestamp :: Timestamp
  UnknownCPU :: CPUID
  UnknownPID :: PID
  EventLoader :: "nat \<Rightarrow> error + 'l"
  newEventLoader :: "'l \<Rightarrow> error + 'el"
  threadTransitions :: "'el \<Rightarrow> Event \<Rightarrow> error + (threadTransition list \<times> 'el)"
  loaderStringTable :: "'el \<Rightarrow> (stringID \<rightharpoonup> string)"
  traceCollectionError :: "EventSet \<Rightarrow> error option"
  newThreadSpanSet :: "Timestamp \<Rightarrow> 'l collectionOptions \<Rightarrow> 'ts"
  addTransition :: "'ts \<Rightarrow> threadTransition \<Rightarrow> error + 'ts"
  threadSpans :: "'ts \<Rightarrow> Timestamp \<Rightarrow> error + ((PID \<times> threadSpan list) list \<times> 'ts)"
  tsDroppedEventCountsByID :: "'ts \<Rightarrow> (int \<times> int) list"
  tsSyntheticTransitionCount :: "'ts \<Rightarrow> int"
  cpuTreesError :: "threadSpan list \<Rightarrow> error option"

text \<open>An \<open>Option\<close> updates the options in place or returns an error.\<close>

type_synonym 'l Option = "'l collectionOptions \<Rightarrow> error + 'l collectionOptions"

fun applyOptions :: "'l Option list \<Rightarrow> 'l collectionOptions \<Rightarrow> error + 'l collectionOptions" where
  "applyOptions [] opts = Inr opts"
| "applyOptions (option # rest) opts =
     (case option opts of Inl err \<Rightarrow> Inl err | Inr opts' \<Rightarrow> applyOptions rest opts')"

text \<open>
  The inner loop of \<open>buildSpansByPID\<close>: each transition's timestamp is reduced by the
  normalization offset, in place, and the transition is added to the span set. The
  second component is the slice \<open>tts\<close> after the loop.
\<close>

fun addTransitions ::
  "('l, 'el, 'ts) schedEnv \<Rightarrow> Timestamp \<Rightarrow> 'ts \<Rightarrow> threadTransition list \<Rightarrow>
   error + ('ts \<times> threadTransition list)" where
  "addTransitions env off ts [] = Inr (ts, [])"
| "addTransitions env off ts (tt # tts) =
     (let tt' = tt\<lparr>ttTimestamp := ttTimestamp tt - off\<rparr> in
      case addTransition env ts tt' of
        Inl err \<Rightarrow> Inl err
      | Inr ts' \<Rightarrow>
          (case addTransitions env off ts' tts of
             Inl err \<Rightarrow> Inl err
           | Inr (ts'', tts') \<Rightarrow> Inr (ts'', tt' # tts')))"

text \<open>
  The body of the event loop of \<open>buildSpansByPID\<close>, on the collection, the span set
  (\<open>None\<close> is the nil pointer) and the loader.
\<close>

fun loadEvent ::
  "('l, 'el, 'ts) schedEnv \<Rightarrow> 'l Collection \<times> 'ts option \<times> 'el \<Rightarrow> Event \<Rightarrow>
   error + ('l Collection \<times> 'ts option \<times> 'el)" where
  "loadEvent env (c, ts, el) ev =
     (if Clipped ev then Inr (c, ts, el)
      else
        (case threadTransitions env el ev of
           Inl err \<Rightarrow> Inl err
         | Inr (tts, el') \<Rightarrow>
             if length tts = 0 then Inr (c, ts, el')
             else
               (let c1 =
                      (if normalizationOffset c = UnknownTimestamp env then
                         (let c0 =
                                (if normalizeTimestamps (options c)
                                 then c\<lparr>normalizationOffset := Timestamp ev\<rparr>
                                 else c\<lparr>normalizationOffset := 0\<rparr>)
                          in c0\<lparr>startTimestamp := Timestamp ev - NormalizationOffset c0\<rparr>)
                       else c);
                    ts1 =
                      (case ts of
                         None \<Rightarrow> newThreadSpanSet env (startTimestamp c1) (options c1)
                       | Some t \<Rightarrow> t);
                    c2 = c1\<lparr>endTimestamp := Timestamp ev - NormalizationOffset c1\<rparr>
                in
                  (case addTransitions env (normalizationOffset c2) ts1 tts of
                     Inl err \<Rightarrow> Inl err
                   | Inr (ts2, tts') \<Rightarrow> Inr (c2\<lparr>ThreadTransitions := tts'\<rparr>, Some ts2, el')))))"

text \<open>The event loop, over the indices it visits.\<close>

fun loadEvents ::
  "('l, 'el, 'ts) schedEnv \<Rightarrow> Event list \<Rightarrow> 'l Collection \<times> 'ts option \<times> 'el \<Rightarrow> int list \<Rightarrow>
   error + ('l Collection \<times> 'ts option \<times> 'el)" where
  "loadEvents env coll s [] = Inr s"
| "loadEvents env coll s (eventIndex # rest) =
     (case EventByIndex coll eventIndex of
        Inl err \<Rightarrow> Inl err
      | Inr ev \<Rightarrow>
          (case loadEvent env s ev of
             Inl err \<Rightarrow> Inl err
           | Inr s' \<Rightarrow> loadEvents env coll s' rest))"

definition eventIndices :: "Event list \<Rightarrow> int list" where
  "eventIndices coll = map int [0 ..< length coll]"

text \<open>
  \<open>buildSpansByPID\<close>. The string table is the one of the loader's string bank, which the
  collection shares from the start; the model reads it once loading is over.
\<close>

definition buildSpansByPID ::
  "('l, 'el, 'ts) schedEnv \<Rightarrow> 'l Collection \<Rightarrow> EventSet \<Rightarrow> 'l \<Rightarrow> error + 'l Collection" where
  "buildSpansByPID env c es eventLoaders =
     (case newEventLoader env eventLoaders of
        Inl err \<Rightarrow> Inl (Errorf ''failed to use eventLoaders: %s'' err)
      | Inr eventLoader \<Rightarrow>
          (case traceCollectionError env es of
             Some err \<Rightarrow> Inl err
           | None \<Rightarrow>
               (let coll = Events es;
                    c1 = c\<lparr>TraceCollection := coll\<rparr>
                in
                  (case loadEvents env coll (c1, None, eventLoader) (eventIndices coll) of
                     Inl err \<Rightarrow> Inl err
                   | Inr (c2, None, el) \<Rightarrow>
                       Inl (StatusError InvalidArgument ''no usable events in collection'')
                   | Inr (c2, Some ts, el) \<Rightarrow>
                       (case threadSpans env ts (endTimestamp c2) of
                          Inl err \<Rightarrow> Inl err
                        | Inr (spans, ts') \<Rightarrow>
                            Inr (c2\<lparr>stringTable := loaderStringTable env el,
                                    spansByPID := spans,
                                    droppedEventCountsByID := tsDroppedEventCountsByID env ts',
                                    syntheticTransitionCount := tsSyntheticTransitionCount env ts'\<rparr>))))))"

text \<open>
  Modelled from the spec: \<open>cpuSpanSet\<close> is declared in other files of the package. It buckets
  the spans it is given by CPU; for each CPU the running index is the vector of its
  \<open>RUNNING\<close> spans sorted by start, and the sleeping and waiting indexes hold its
  \<open>SLEEPING\<close> and \<open>WAITING\<close> spans.
\<close>

definition newCPUSpanSet :: "threadSpan list" where
  "newCPUSpanSet = []"

definition addSpan :: "threadSpan list \<Rightarrow> threadSpan \<Rightarrow> threadSpan list" where
  "addSpan cib span = cib @ [span]"

definition bucket :: "threadState \<Rightarrow> threadSpan list \<Rightarrow> (CPUID \<times> threadSpan list) list" where
  "bucket st cib =
     map (\<lambda>k. (k, filter (\<lambda>span. cpu span = k \<and> state span = st) cib)) (remdups (map cpu cib))"

definition cpuTrees ::
  "('l, 'el, 'ts) schedEnv \<Rightarrow> threadSpan list \<Rightarrow>
   error + ((CPUID \<times> threadSpan list) list \<times> (CPUID \<times> threadSpan list) list \<times>
            (CPUID \<times> threadSpan list) list)" where
  "cpuTrees env cib =
     (case cpuTreesError env cib of
        Some err \<Rightarrow> Inl err
      | None \<Rightarrow>
          Inr (map (\<lambda>(k, spans). (k, sort_key (\<lambda>span. sint (spanStart span)) spans))
                 (bucket RunningState cib),
               bucket SleepingState cib,
               bucket WaitingState cib))"

text \<open>
  \<open>buildSpansByCPU\<close>: the two nested loops over the per-PID spans, then the trees.
\<close>

fun projectSpans ::
  "('l, 'el, 'ts) schedEnv \<Rightarrow> 'l Collection \<times> threadSpan list \<Rightarrow> threadSpan list \<Rightarrow>
   'l Collection \<times> threadSpan list" where
  "projectSpans env (c, cib) [] = (c, cib)"
| "projectSpans env (c, cib) (span # spans) =
     (if cpu span = UnknownCPU env \<or> pid span = UnknownPID env
      then projectSpans env (c, cib) spans
      else projectSpans env
             (c\<lparr>pids := List.insert (pid span) (pids c), cpus := List.insert (cpu span) (cpus c)\<rparr>,
              addSpan cib span) spans)"

fun projectAll ::
  "('l, 'el, 'ts) schedEnv \<Rightarrow> 'l Collection \<times> threadSpan list \<Rightarrow>
   (PID \<times> threadSpan list) list \<Rightarrow> 'l Collection \<times> threadSpan list" where
  "projectAll env s [] = s"
| "projectAll env s ((p, spans) # rest) = projectAll env (projectSpans env s spans) rest"

definition buildSpansByCPU ::
  "('l, 'el, 'ts) schedEnv \<Rightarrow> 'l Collection \<Rightarrow> error + 'l Collection" where
  "buildSpansByCPU env c =
     (case projectAll env (c, newCPUSpanSet) (spansByPID c) of
        (c1, cib) \<Rightarrow>
          (case cpuTrees env cib of
             Inl err \<Rightarrow> Inl err
           | Inr (running, sleeping, waiting) \<Rightarrow>
               Inr (c1\<lparr>runningSpansByCPU := running, sleepingSpansByCPU := sleeping,
                       waitingSpansByCPU := waiting\<rparr>)))"

text \<open>\<open>NewCollection\<close>. The result is the collection, or the error and no collection.\<close>

definition emptyCollection :: "('l, 'el, 'ts) schedEnv \<Rightarrow> 'l Collection" where
  "emptyCollection env =
     \<lparr>stringTable = Map.empty, normalizationOffset = UnknownTimestamp env,
      runningSpansByCPU = [], sleepingSpansByCPU = [], waitingSpansByCPU = [],
      spansByPID = [], options = \<lparr>loaders = None, normalizeTimestamps = False\<rparr>,
      cpus = [], pids = [], startTimestamp = 0, endTimestamp = 0,
      TraceCollection = [], ThreadTransitions = [],
      droppedEventCountsByID = [], syntheticTransitionCount = 0\<rparr>"

definition NewCollection ::
  "('l, 'el, 'ts) schedEnv \<Rightarrow> EventSet \<Rightarrow> 'l Option list \<Rightarrow> error + 'l Collection" where
  "NewCollection env es opts =
     (let c = emptyCollection env in
      case applyOptions opts (options c) of
        Inl err \<Rightarrow> Inl err
      | Inr co \<Rightarrow>
          (case (case loaders co of
                   None \<Rightarrow>
                     (case EventLoader env (DefaultLoadersType es) of
                        Inl err \<Rightarrow> Inl err
                      | Inr el \<Rightarrow> Inr (el, co\<lparr>loaders := Some el\<rparr>))
                 | Some el \<Rightarrow> Inr (el, co)) of
             Inl err \<Rightarrow> Inl err
           | Inr (el, co') \<Rightarrow>
               (case buildSpansByPID env (c\<lparr>options := co'\<rparr>) es el of
                  Inl err \<Rightarrow> Inl err
                | Inr c1 \<Rightarrow> buildSpansByCPU env c1)))"

section \<open>Raw events\<close>

text \<open>\<open>cpuLookupFunc\<close>: the CPUs an event belongs to; none for a clipped event.\<close>

definition cpuLookupFunc :: "Event \<Rightarrow> error + CPUID list" where
  "cpuLookupFunc ev =
     (if Clipped ev then Inr []
      else if Name ev = ''sched_migrate_task'' then
        (case map_of (NumberProperties ev) ''orig_cpu'' of
           None \<Rightarrow> Inl (StatusError Internal ''sched_migrate_task lacks orig_cpu field'')
         | Some prevCPU \<Rightarrow> Inr [CPU ev, prevCPU])
      else if Name ev = ''sched_wakeup'' \<or> Name ev = ''sched_wakeup_new'' then
        (case map_of (NumberProperties ev) ''target_cpu'' of
           None \<Rightarrow> Inl (StatusError Internal ''%s lacks target_cpu field'')
         | Some targetCPU \<Rightarrow> Inr [targetCPU])
      else Inr [CPU ev])"

text \<open>
  \<open>PerCPUCollection\<close> is declared in other files of the package: building it and asking it for
  the indices of the filtered-in events are parameters.
\<close>

record ('l, 'pcc) perCPUEnv =
  NewPerCPUCollection :: "'l Collection \<Rightarrow> (Event \<Rightarrow> error + CPUID list) \<Rightarrow> error + 'pcc"
  EventIndices :: "'pcc \<Rightarrow> Filter list \<Rightarrow> int list"

fun adjustEvents :: "'l Collection \<Rightarrow> Event list \<Rightarrow> int list \<Rightarrow> error + Event list" where
  "adjustEvents c events [] = Inr events"
| "adjustEvents c events (eventIndex # rest) =
     (case EventByIndex (TraceCollection c) eventIndex of
        Inl err \<Rightarrow> Inl err
      | Inr ev \<Rightarrow>
          adjustEvents c (events @ [ev\<lparr>Timestamp := Timestamp ev - normalizationOffset c\<rparr>]) rest)"

definition GetRawEvents ::
  "('l, 'pcc) perCPUEnv \<Rightarrow> 'l Collection \<Rightarrow> Filter list \<Rightarrow> error + Event list" where
  "GetRawEvents penv c filters =
     (case NewPerCPUCollection penv c cpuLookupFunc of
        Inl err \<Rightarrow> Inl err
      | Inr perCPUColl \<Rightarrow> adjustEvents c [] (EventIndices penv perCPUColl filters))"

section \<open>The converter's command line\<close>

text \<open>
  The part of \<open>main\<close> of \<open>trace_to_proto_converter\<close> from \<open>flag.Parse\<close> to
  \<open>SetOverflowedCPUs\<close>. \<open>log.Exit\<close> and \<open>log.Exitf\<close> end the process with status 1 and a
  run-time panic ends it with status 2: both are values of \<open>exit\<close>. Strings are byte
  strings, as in Go.
\<close>

record flags =
  formatFilePaths :: string
  traceFilesPath :: string
  outputPath :: string
  statsFilesPath :: string
  outputFormat :: string
  failOnUnknownEventFormat :: bool

datatype exit = LogExit string | Panic string

text \<open>
  The world outside the converter: \<open>ReadFile\<close> gives the contents of a file that can be
  opened and read, \<open>ReadDir\<close> the names in a directory, \<open>Join\<close> is \<open>path.Join\<close>, and
  \<open>traceparserNew\<close> and \<open>CPUOverflowed\<close> are the functions of package \<open>traceparser\<close>, which
  is in other files of the repository (\<open>CPUOverflowed\<close> returns a flag and an error or nil).
\<close>

record world =
  ReadFile :: "string \<rightharpoonup> string"
  ReadDir :: "string \<rightharpoonup> string list"
  Join :: "string \<Rightarrow> string \<Rightarrow> string"
  traceparserNew :: "string \<Rightarrow> string list \<Rightarrow> error option"
  CPUOverflowed :: "string \<Rightarrow> bool \<times> error option"

fun Split :: "string \<Rightarrow> char \<Rightarrow> string list" where
  "Split [] sep = [[]]"
| "Split (ch # rest) sep =
     (if ch = sep then [] # Split rest sep
      else (case Split rest sep of [] \<Rightarrow> [[ch]] | w # ws \<Rightarrow> (ch # w) # ws))"

text \<open>
  \<open>strings.TrimSpace\<close> removes the leading and the trailing white space of a string, as
  Unicode defines it. A Go string is a sequence of bytes in UTF-8, and the white-space
  code points are U+0009 to U+000D, U+0020, U+0085, U+00A0, U+1680, U+2000 to U+200A,
  U+2028, U+2029, U+202F, U+205F and U+3000: \<open>whiteSpace\<close> lists their encodings. A byte
  sequence that is not one of them (also an invalid or over-long encoding) is no white
  space, so trimming stops there.
\<close>

definition whiteSpace :: "string list" where
  "whiteSpace =
     [[CHR 0x09], [CHR 0x0A], [CHR 0x0B], [CHR 0x0C], [CHR 0x0D], [CHR 0x20],
      [CHR 0xC2, CHR 0x85], [CHR 0xC2, CHR 0xA0],
      [CHR 0xE1, CHR 0x9A, CHR 0x80],
      [CHR 0xE2, CHR 0x80, CHR 0x80], [CHR 0xE2, CHR 0x80, CHR 0x81],
      [CHR 0xE2, CHR 0x80, CHR 0x82], [CHR 0xE2, CHR 0x80, CHR 0x83],
      [CHR 0xE2, CHR 0x80, CHR 0x84], [CHR 0xE2, CHR 0x80, CHR 0x85],
      [CHR 0xE2, CHR 0x80, CHR 0x86], [CHR 0xE2, CHR 0x80, CHR 0x87],
      [CHR 0xE2, CHR 0x80, CHR 0x88], [CHR 0xE2, CHR 0x80, CHR 0x89],
      [CHR 0xE2, CHR 0x80, CHR 0x8A],
      [CHR 0xE2, CHR 0x80, CHR 0xA8], [CHR 0xE2, CHR 0x80, CHR 0xA9],
      [CHR 0xE2, CHR 0x80, CHR 0xAF], [CHR 0xE2, CHR 0x81, CHR 0x9F],
      [CHR 0xE3, CHR 0x80, CHR 0x80]]"

fun HasPrefix :: "string \<Rightarrow> string \<Rightarrow> bool" where
  "HasPrefix str [] = True"
| "HasPrefix [] (p # ps) = False"
| "HasPrefix (ch # rest) (p # ps) = (ch = p \<and> HasPrefix rest ps)"

text \<open>
  \<open>trimLeft runes str\<close> removes from the front of \<open>str\<close> every leading occurrence of one
  of the byte sequences \<open>runes\<close>. Trailing white space is leading white space of the
  reversed string, with the encodings reversed.
\<close>

function trimLeft :: "string list \<Rightarrow> string \<Rightarrow> string" where
  "trimLeft runes str =
     (case List.find (\<lambda>r. r \<noteq> [] \<and> HasPrefix str r) runes of
        None \<Rightarrow> str
      | Some r \<Rightarrow> trimLeft runes (drop (length r) str))"
  by pat_completeness auto

termination trimLeft
proof (relation "measure (\<lambda>(runes, str). length str)")
  show "wf (measure (\<lambda>(runes, str). length str))" by simp
next
  fix runes :: "string list" and str r :: string
  assume "List.find (\<lambda>r. r \<noteq> [] \<and> HasPrefix str r) runes = Some r"
  then have r: "r \<noteq> []" "HasPrefix str r" by (auto simp: find_Some_iff)
  have "HasPrefix s p \<Longrightarrow> length p \<le> length s" for s p
    by (induction s p rule: HasPrefix.induct) auto
  with r have "length r \<le> length str" by blast
  with r show "((runes, drop (length r) str), (runes, str)) \<in> measure (\<lambda>(runes, str). length str)"
    by (cases r) auto
qed

declare trimLeft.simps [simp del]

definition TrimSpace :: "string \<Rightarrow> string" where
  "TrimSpace str = rev (trimLeft (map rev whiteSpace) (rev (trimLeft whiteSpace str)))"

definition HasSuffix :: "string \<Rightarrow> string \<Rightarrow> bool" where
  "HasSuffix str suf \<longleftrightarrow> length suf \<le> length str \<and> drop (length str - length suf) str = suf"

fun filterSlice :: "string list \<Rightarrow> (string \<Rightarrow> bool) \<Rightarrow> string list" where
  "filterSlice [] pred = []"
| "filterSlice (str # strs) pred =
     (if pred str then str # filterSlice strs pred else filterSlice strs pred)"

definition filteredFormatFilePaths :: "flags \<Rightarrow> string list" where
  "filteredFormatFilePaths fl =
     filterSlice (map TrimSpace (Split (formatFilePaths fl) CHR '','')) (\<lambda>str. str \<noteq> [])"

text \<open>
  The loop over the format files, on the index \<open>i\<close>, the slice \<open>formatFiles\<close> and
  \<open>headerContent\<close>. Writing \<open>formatFiles[i]\<close> beyond the slice's length panics.
\<close>

fun readFormatFiles ::
  "world \<Rightarrow> string list \<Rightarrow> nat \<Rightarrow> string list \<Rightarrow> string \<Rightarrow> exit + (string list \<times> string)" where
  "readFormatFiles w [] i formatFiles headerContent = Inr (formatFiles, headerContent)"
| "readFormatFiles w (formatFilePath # rest) i formatFiles headerContent =
     (case ReadFile w formatFilePath of
        None \<Rightarrow> Inl (LogExit ''Failed to read format file: %s'')
      | Some buf \<Rightarrow>
          if HasSuffix formatFilePath ''header_page''
          then readFormatFiles w rest i formatFiles buf
          else if i < length formatFiles
          then readFormatFiles w rest (i + 1) (formatFiles[i := buf]) headerContent
          else Inl (Panic ''index out of range''))"

text \<open>
  Flag validation and the reading of the format files: the result is the pair of
  arguments with which \<open>traceparser.New\<close> is called, or the exit taken before.
\<close>

definition readFormats :: "world \<Rightarrow> flags \<Rightarrow> exit + (string \<times> string list)" where
  "readFormats w fl =
     (let paths = filteredFormatFilePaths fl in
      if length paths < 2 then
        Inl (LogExit ''format_files is required. Must pass the path to at least one format file and the header_page format file.'')
      else if outputPath fl = [] then Inl (LogExit ''output_path is required.'')
      else
        (case readFormatFiles w paths 0 (replicate (length paths - 1) []) [] of
           Inl e \<Rightarrow> Inl e
         | Inr (formatFiles, headerContent) \<Rightarrow>
             if headerContent = [] then
               Inl (LogExit ''Must pass a path to the header_page format file using the format_files argument.'')
             else Inr (headerContent, formatFiles)))"

text \<open>
  The loop over the stats files, on the index \<open>i\<close> and the set \<open>overflowedCPUs\<close>. Each file
  is opened under \<open>*traceFilesPath\<close>, and CPU \<open>i\<close> is added when \<open>err != nil && overflowed\<close>.
\<close>

fun statsLoop :: "world \<Rightarrow> string \<Rightarrow> nat \<Rightarrow> string list \<Rightarrow> int list \<Rightarrow> exit + int list" where
  "statsLoop w tracePath i [] overflowedCPUs = Inr overflowedCPUs"
| "statsLoop w tracePath i (statsFileName # rest) overflowedCPUs =
     (case ReadFile w (Join w tracePath statsFileName) of
        None \<Rightarrow> Inl (LogExit ''Failed to open trace file: %s'')
      | Some statsFile \<Rightarrow>
          (case CPUOverflowed w statsFile of
             (overflowed, err) \<Rightarrow>
               if err \<noteq> None \<and> overflowed
               then statsLoop w tracePath (i + 1) rest (List.insert (int i) overflowedCPUs)
               else statsLoop w tracePath (i + 1) rest overflowedCPUs))"

text \<open>
  \<open>main\<close> up to \<open>SetOverflowedCPUs\<close>: the result is the set of overflowed CPUs that the
  event-set builder receives, or the exit taken before.
\<close>

definition mainOverflowedCPUs :: "world \<Rightarrow> flags \<Rightarrow> exit + int list" where
  "mainOverflowedCPUs w fl =
     (case readFormats w fl of
        Inl e \<Rightarrow> Inl e
      | Inr (headerContent, formatFiles) \<Rightarrow>
          (case traceparserNew w headerContent formatFiles of
             Some err \<Rightarrow> Inl (LogExit ''Failed to parse formats: %s'')
           | None \<Rightarrow>
               (case ReadDir w (traceFilesPath fl) of
                  None \<Rightarrow> Inl (LogExit ''Failed to get list of trace files: %s'')
                | Some traceFiles \<Rightarrow>
                    (case (if statsFilesPath fl \<noteq> [] then
                             (case ReadDir w (statsFilesPath fl) of
                                None \<Rightarrow> Inl (LogExit ''Failed to get list of stats files: %s'')
                              | Some names \<Rightarrow> Inr names)
                           else Inr []) of
                       Inl e \<Rightarrow> Inl e
                     | Inr statsFiles \<Rightarrow> statsLoop w (traceFilesPath fl) 0 statsFiles []))))"

section \<open>Notions of the specification\<close>

text \<open>
  The event loop on the events themselves; it is shown below to be the loop over the
  indices of the trace collection.
\<close>

fun loadEventList ::
  "('l, 'el, 'ts) schedEnv \<Rightarrow> 'l Collection \<times> 'ts option \<times> 'el \<Rightarrow> Event list \<Rightarrow>
   error + ('l Collection \<times> 'ts option \<times> 'el)" where
  "loadEventList env s [] = Inr s"
| "loadEventList env s (ev # evs) =
     (case loadEvent env s ev of Inl err \<Rightarrow> Inl err | Inr s' \<Rightarrow> loadEventList env s' evs)"

text \<open>
  The usable events of a trace, in the specification's words: the events that are not
  clipped and that the loader translates into at least one thread transition (the
  scheduling events), in order, up to the first event that the loader rejects.
\<close>

fun schedEvents :: "('l, 'el, 'ts) schedEnv \<Rightarrow> 'el \<Rightarrow> Event list \<Rightarrow> Event list" where
  "schedEvents env el [] = []"
| "schedEvents env el (ev # evs) =
     (if Clipped ev then schedEvents env el evs
      else
        (case threadTransitions env el ev of
           Inl err \<Rightarrow> []
         | Inr (tts, el') \<Rightarrow>
             if tts = [] then schedEvents env el' evs else ev # schedEvents env el' evs))"

text \<open>The spans that \<open>buildSpansByCPU\<close> projects: those with a known CPU and a known PID.\<close>

definition known :: "('l, 'el, 'ts) schedEnv \<Rightarrow> threadSpan \<Rightarrow> bool" where
  "known env span \<longleftrightarrow> cpu span \<noteq> UnknownCPU env \<and> pid span \<noteq> UnknownPID env"

definition projected :: "('l, 'el, 'ts) schedEnv \<Rightarrow> (PID \<times> threadSpan list) list \<Rightarrow> threadSpan list" where
  "projected env m = filter (known env) (concat (map snd m))"

definition indexed :: "(CPUID \<times> threadSpan list) list \<Rightarrow> threadSpan set" where
  "indexed idx = set (concat (map snd idx))"




section \<open>A small instance\<close>

text \<open>
  An instance of the parameters on which the model can be run: the unknown values are
  \<open>-1\<close>, the loader translates a \<open>sched_switch\<close> event with a \<open>next_pid\<close> field into one
  transition of that PID and rejects one without it, every other event makes no
  transition, and the span set keeps the transitions it is given and turns each into a
  span that ends with the collection.
\<close>

definition demoTransitions :: "unit \<Rightarrow> Event \<Rightarrow> error + (threadTransition list \<times> unit)" where
  "demoTransitions el ev =
     (if Name ev = ''sched_switch'' then
        (case map_of (NumberProperties ev) ''next_pid'' of
           None \<Rightarrow> Inl (Collaborator ''sched_switch lacks next_pid field'')
         | Some p \<Rightarrow>
             Inr ([\<lparr>EventID = Index ev, ttPID = p, ttTimestamp = Timestamp ev,
                    PrevCPU = CPU ev, NextCPU = CPU ev,
                    PrevState = WaitingState, NextState = RunningState,
                    PrevCommand = 0, NextCommand = 0, PrevPriority = 0, NextPriority = 0\<rparr>], el))
      else Inr ([], el))"

definition demoSpans :: "threadTransition list \<Rightarrow> Timestamp \<Rightarrow> (PID \<times> threadSpan list) list" where
  "demoSpans ts e =
     map (\<lambda>tt. (ttPID tt,
                 [\<lparr>pid = ttPID tt, cpu = NextCPU tt, state = NextState tt, command = 0,
                   priority = 0, spanStart = ttTimestamp tt, spanEnd = e\<rparr>])) ts"

definition demoEnv :: "(unit, unit, threadTransition list) schedEnv" where
  "demoEnv =
     \<lparr>UnknownTimestamp = - 1, UnknownCPU = - 1, UnknownPID = - 1,
      EventLoader = (\<lambda>t. Inr ()),
      newEventLoader = (\<lambda>l. Inr ()),
      threadTransitions = demoTransitions,
      loaderStringTable = (\<lambda>el. Map.empty),
      traceCollectionError = (\<lambda>es. None),
      newThreadSpanSet = (\<lambda>start opts. []),
      addTransition = (\<lambda>ts tt. Inr (ts @ [tt])),
      threadSpans = (\<lambda>ts e. Inr (demoSpans ts e, ts)),
      tsDroppedEventCountsByID = (\<lambda>ts. []),
      tsSyntheticTransitionCount = (\<lambda>ts. 0),
      cpuTreesError = (\<lambda>cib. None)\<rparr>"

definition NormalizeTimestamps :: "bool \<Rightarrow> unit Option" where
  "NormalizeTimestamps b = (\<lambda>opts. Inr (opts\<lparr>normalizeTimestamps := b\<rparr>))"

definition switchEvent :: "int \<Rightarrow> int \<Rightarrow> Timestamp \<Rightarrow> bool \<Rightarrow> int \<Rightarrow> Event" where
  "switchEvent i k t clip p =
     \<lparr>Index = i, Name = ''sched_switch'', CPU = k, Timestamp = t, Clipped = clip,
      TextProperties = [], NumberProperties = [(''next_pid'', p)]\<rparr>"

definition demoCollection :: "unit Collection" where
  "demoCollection =
     (emptyCollection demoEnv)
       \<lparr>stringTable := [1 \<mapsto> ''bash''], cpus := [2, 0, 1],
        droppedEventCountsByID := [(7, 1), (3, 2), (5, 1)]\<rparr>"

text \<open>
  A world with a format directory, a trace directory and a stats directory for one CPU,
  whose stats file reports an overrun: \<open>CPUOverflowed\<close> reads it without error and
  answers \<open>true\<close>, as \<open>TestReadStats\<close> expects for such a file.
\<close>

definition demoStats :: string where
  "demoStats = ''overrun: 1''"

definition demoWorld :: world where
  "demoWorld =
     \<lparr>ReadFile = map_of
        [(''fmt/header_page'', ''header''), (''fmt/sched_switch'', ''format''),
         (''header_page'', ''header''),
         (''traces/cpu0'', ''pages''), (''stats/cpu0'', demoStats)],
      ReadDir = map_of [(''traces'', [''cpu0'']), (''stats'', [''cpu0''])],
      Join = (\<lambda>dir name. dir @ ''/'' @ name),
      traceparserNew = (\<lambda>headerContent formatFiles. None),
      CPUOverflowed = (\<lambda>content. if content = demoStats then (True, None) else (False, None))\<rparr>"

definition demoFlags :: flags where
  "demoFlags =
     \<lparr>formatFilePaths = ''fmt/header_page, fmt/sched_switch'', traceFilesPath = ''traces'',
      outputPath = ''out.pb'', statsFilesPath = ''stats'', outputFormat = ''proto'',
      failOnUnknownEventFormat = True\<rparr>"

text \<open>
  Event sets for the instance: a trace of two scheduling events (the second of a thread
  on an unknown CPU) with a clipped event and an event of another kind in between; a
  trace whose only event is clipped; and a trace in which an event of another kind
  precedes the first scheduling event.
\<close>

definition demoEventSet :: EventSet where
  "demoEventSet =
     \<lparr>Events =
        [switchEvent 0 0 5000000000 False 100,
         switchEvent 1 2 5000000500 True 300,
         \<lparr>Index = 2, Name = ''other'', CPU = 1, Timestamp = 5000000700, Clipped = False,
          TextProperties = [], NumberProperties = []\<rparr>,
         switchEvent 3 (- 1) 5000002000 False 400],
      DefaultLoadersType = 0\<rparr>"

definition demoClippedSet :: EventSet where
  "demoClippedSet = \<lparr>Events = [switchEvent 0 0 5 True 100], DefaultLoadersType = 0\<rparr>"


definition demoFailingOption :: "unit Option" where
  "demoFailingOption = (\<lambda>opts. Inl (Collaborator ''option rejected''))"

text \<open>
  A per-CPU collection for the instance: it keeps the indices of the events that
  \<open>cpuLookupFunc\<close> puts on some CPU, and answers every filter with all of them.
\<close>

fun demoIndex :: "(Event \<Rightarrow> error + CPUID list) \<Rightarrow> int \<Rightarrow> Event list \<Rightarrow> error + int list" where
  "demoIndex f i [] = Inr []"
| "demoIndex f i (ev # evs) =
     (case f ev of
        Inl err \<Rightarrow> Inl err
      | Inr ks \<Rightarrow>
          (case demoIndex f (i + 1) evs of
             Inl err \<Rightarrow> Inl err
           | Inr rest \<Rightarrow> Inr (if ks = [] then rest else i # rest)))"

definition demoPerCPU :: "(unit, int list) perCPUEnv" where
  "demoPerCPU =
     \<lparr>NewPerCPUCollection = (\<lambda>c f. demoIndex f 0 (TraceCollection c)),
      EventIndices = (\<lambda>pcc filters. pcc)\<rparr>"







section \<open>Results\<close>

lemma stringByID_Inl: "(\<exists>e. stringByID st i = Inl e) \<longleftrightarrow> st i = None"
  by (simp add: stringByID_def split: option.splits)

text \<open>
  C9. Looking up string ID 0, the reserved \<open>UnknownCommand\<close>, returns the literal
  \<open><unknown>\<close> and no error, whatever the string table holds. For any other ID,
  \<open>LookupCommand\<close> returns the stored string when the table has the ID, and it returns an
  error exactly when the table has no entry for the ID.
\<close>

theorem LookupCommand_spec:
  "LookupCommand c 0 = Inr ''<unknown>'' \<and>
   (\<forall>i. i \<noteq> 0 \<longrightarrow>
      (\<forall>s. stringTable c i = Some s \<longrightarrow> LookupCommand c i = Inr s) \<and>
      ((\<exists>e. LookupCommand c i = Inl e) \<longleftrightarrow> stringTable c i = None))"
  by (auto simp: LookupCommand_def UnknownCommand_def stringByID_def split: option.splits)

theorem LookupCommand_spec_witness:
  "LookupCommand demoCollection 0 = Inr ''<unknown>'' \<and>
   LookupCommand demoCollection 1 = Inr ''bash'' \<and>
   (\<exists>e. LookupCommand demoCollection 2 = Inl e)"
  using LookupCommand_spec [of demoCollection]
  by (simp add: demoCollection_def)

text \<open>
  C10. \<open>ExpandCPUs\<close> returns a non-empty slice as it is, in its order and with its
  duplicates. For the empty slice it returns the CPUs of the collection, each once, in
  strictly increasing order. The keys of the Go set \<open>cpus\<close> are distinct.
\<close>

theorem ExpandCPUs_spec:
  "(xs \<noteq> [] \<longrightarrow> ExpandCPUs c xs = xs) \<and>
   (distinct (cpus c) \<longrightarrow>
      sorted_wrt (<) (ExpandCPUs c []) \<and> set (ExpandCPUs c []) = set (cpus c))"
  by (simp add: ExpandCPUs_def CPUs_def buildFilter_def strict_sorted_iff)

theorem ExpandCPUs_spec_witness:
  "ExpandCPUs demoCollection [3, 1, 3] = [3, 1, 3] \<and>
   distinct (cpus demoCollection) \<and> ExpandCPUs demoCollection [] = [0, 1, 2]"
  using ExpandCPUs_spec [of "[3, 1, 3]" demoCollection]
  by (simp add: demoCollection_def ExpandCPUs_def CPUs_def buildFilter_def)

subsection \<open>The converter\<close>

lemma readFormatFiles_no_header:
  "\<forall>p\<in>set ps. \<not> HasSuffix p ''header_page'' \<Longrightarrow>
   readFormatFiles w ps i ff hc = Inr (ff', hc') \<Longrightarrow>
   hc' = hc \<and> (ps \<noteq> [] \<longrightarrow> i + length ps \<le> length ff)"
proof (induction ps arbitrary: i ff)
  case Nil
  then show ?case by simp
next
  case (Cons p ps)
  from Cons.prems obtain buf where buf: "ReadFile w p = Some buf"
    by (cases "ReadFile w p") auto
  from Cons.prems have nh: "\<not> HasSuffix p ''header_page''" by simp
  from Cons.prems buf nh have lt: "i < length ff"
    by (auto split: if_splits)
  from Cons.prems buf nh lt
  have "readFormatFiles w ps (i + 1) (ff[i := buf]) hc = Inr (ff', hc')" by simp
  with Cons.IH [of "i + 1" "ff[i := buf]"] Cons.prems(1) lt
  show ?case by (cases ps) auto
qed

lemma readFormatFiles_ok:
  "\<forall>p\<in>set ps. ReadFile w p \<noteq> None \<Longrightarrow>
   i + length (filter (\<lambda>p. \<not> HasSuffix p ''header_page'') ps) \<le> length ff \<Longrightarrow>
   \<exists>ff' hc'. readFormatFiles w ps i ff hc = Inr (ff', hc') \<and> length ff' = length ff \<and>
     (if \<exists>p\<in>set ps. HasSuffix p ''header_page''
      then \<exists>p\<in>set ps. HasSuffix p ''header_page'' \<and> ReadFile w p = Some hc'
      else hc' = hc)"
proof (induction ps arbitrary: i ff hc)
  case Nil
  then show ?case by simp
next
  case (Cons p ps)
  from Cons.prems obtain buf where buf: "ReadFile w p = Some buf" by auto
  show ?case
  proof (cases "HasSuffix p ''header_page''")
    case True
    from Cons.prems True
    have "\<exists>ff' hc'. readFormatFiles w ps i ff buf = Inr (ff', hc') \<and> length ff' = length ff \<and>
       (if \<exists>p\<in>set ps. HasSuffix p ''header_page''
        then \<exists>p\<in>set ps. HasSuffix p ''header_page'' \<and> ReadFile w p = Some hc'
        else hc' = buf)"
      by (intro Cons.IH) auto
    with True buf show ?thesis by (auto split: if_splits)
  next
    case False
    from Cons.prems False have lt: "i < length ff" by simp
    from Cons.prems False
    have "\<exists>ff' hc'. readFormatFiles w ps (i + 1) (ff[i := buf]) hc = Inr (ff', hc') \<and>
       length ff' = length (ff[i := buf]) \<and>
       (if \<exists>p\<in>set ps. HasSuffix p ''header_page''
        then \<exists>p\<in>set ps. HasSuffix p ''header_page'' \<and> ReadFile w p = Some hc'
        else hc' = hc)"
      by (intro Cons.IH) auto
    with False buf lt show ?thesis by (auto split: if_splits)
  qed
qed

text \<open>
  C5, as amended. Let \<open>paths\<close> be the non-empty trimmed entries of \<open>--format_files\<close>. If
  there are at least two of them, every one can be read, one ends in \<open>header_page\<close>, no file
  of that name is empty and \<open>--output_path\<close> is set, then validation passes and
  \<open>traceparser.New\<close> is called with the content of a \<open>header_page\<close> file and one slot for
  each other path. If there are fewer than two paths (so also when \<open>--format_files\<close> is
  missing or names the header page alone), or \<open>--output_path\<close> is missing, or no path ends
  in \<open>header_page\<close>, the converter exits before parsing, through \<open>log.Exit\<close> or a panic.
\<close>

theorem readFormats_spec:
  assumes paths: "paths = filteredFormatFilePaths fl"
  shows
  "(2 \<le> length paths \<and> outputPath fl \<noteq> [] \<and>
    (\<forall>p\<in>set paths. ReadFile w p \<noteq> None) \<and>
    (\<exists>p\<in>set paths. HasSuffix p ''header_page'') \<and>
    (\<forall>p\<in>set paths. HasSuffix p ''header_page'' \<longrightarrow> ReadFile w p \<noteq> Some [])
    \<longrightarrow>
    (\<exists>headerContent formatFiles.
       readFormats w fl = Inr (headerContent, formatFiles) \<and>
       length formatFiles = length paths - 1 \<and>
       (\<exists>p\<in>set paths. HasSuffix p ''header_page'' \<and> ReadFile w p = Some headerContent))) \<and>
   (length paths < 2 \<or> outputPath fl = [] \<or> (\<forall>p\<in>set paths. \<not> HasSuffix p ''header_page'')
    \<longrightarrow> (\<exists>e. readFormats w fl = Inl e))"
proof (intro conjI impI)
  assume a: "2 \<le> length paths \<and> outputPath fl \<noteq> [] \<and>
    (\<forall>p\<in>set paths. ReadFile w p \<noteq> None) \<and>
    (\<exists>p\<in>set paths. HasSuffix p ''header_page'') \<and>
    (\<forall>p\<in>set paths. HasSuffix p ''header_page'' \<longrightarrow> ReadFile w p \<noteq> Some [])"
  then obtain q where q: "q \<in> set paths" "HasSuffix q ''header_page''" by blast
  then have "length (filter (\<lambda>p. \<not> HasSuffix p ''header_page'') paths) < length paths"
    by (intro length_filter_less [of q]) auto
  then have fit: "0 + length (filter (\<lambda>p. \<not> HasSuffix p ''header_page'') paths)
      \<le> length (replicate (length paths - 1) ([]::string))"
    by simp
  from a have rd: "\<forall>p\<in>set paths. ReadFile w p \<noteq> None" by blast
  from readFormatFiles_ok [OF rd fit, of "[]"] q
  obtain ff' hc' p where r: "readFormatFiles w paths 0 (replicate (length paths - 1) []) [] = Inr (ff', hc')"
      "length ff' = length paths - 1" "p \<in> set paths" "HasSuffix p ''header_page''"
      "ReadFile w p = Some hc'"
    by (auto split: if_splits)
  with a have "hc' \<noteq> []" by auto
  with r a paths show "\<exists>headerContent formatFiles.
       readFormats w fl = Inr (headerContent, formatFiles) \<and>
       length formatFiles = length paths - 1 \<and>
       (\<exists>p\<in>set paths. HasSuffix p ''header_page'' \<and> ReadFile w p = Some headerContent)"
    by (auto simp: readFormats_def Let_def)
next
  assume b: "length paths < 2 \<or> outputPath fl = [] \<or> (\<forall>p\<in>set paths. \<not> HasSuffix p ''header_page'')"
  show "\<exists>e. readFormats w fl = Inl e"
  proof (cases "length paths < 2 \<or> outputPath fl = []")
    case True
    with paths show ?thesis by (auto simp: readFormats_def Let_def)
  next
    case False
    with b have nh: "\<forall>p\<in>set paths. \<not> HasSuffix p ''header_page''" by blast
    show ?thesis
    proof (cases "readFormatFiles w paths 0 (replicate (length paths - 1) []) []")
      case (Inl e)
      with False paths show ?thesis by (auto simp: readFormats_def Let_def)
    next
      case (Inr r)
      obtain ff' hc' where "r = (ff', hc')" by (cases r)
      with Inr readFormatFiles_no_header [OF nh, of w 0 _ "[]" ff' hc']
      have "hc' = []" by blast
      with Inr \<open>r = (ff', hc')\<close> False paths show ?thesis by (auto simp: readFormats_def Let_def)
    qed
  qed
qed

theorem readFormats_spec_witness:
  "filteredFormatFilePaths demoFlags = [''fmt/header_page'', ''fmt/sched_switch''] \<and>
   readFormats demoWorld demoFlags = Inr (''header'', [''format'']) \<and>
   (\<exists>e. readFormats demoWorld (demoFlags\<lparr>outputPath := []\<rparr>) = Inl e)"
  using readFormats_spec [OF refl, of demoFlags demoWorld]
    readFormats_spec [OF refl, of "demoFlags\<lparr>outputPath := []\<rparr>" demoWorld]
  by (simp add: readFormats_def filteredFormatFilePaths_def demoWorld_def demoFlags_def
      TrimSpace_def whiteSpace_def trimLeft.simps HasSuffix_def)

text \<open>
  The claim C5 as it is written fails when \<open>--format_files\<close> names the header page and no
  event format file: the path ends in \<open>header_page\<close>, the file can be read and
  \<open>--output_path\<close> is set, and the converter exits.
\<close>

theorem readFormats_header_only_counterexample:
  "filteredFormatFilePaths (demoFlags\<lparr>formatFilePaths := ''header_page''\<rparr>) = [''header_page''] \<and>
   HasSuffix ''header_page'' ''header_page'' \<and>
   ReadFile demoWorld ''header_page'' = Some ''header'' \<and>
   outputPath (demoFlags\<lparr>formatFilePaths := ''header_page''\<rparr>) = ''out.pb'' \<and>
   readFormats demoWorld (demoFlags\<lparr>formatFilePaths := ''header_page''\<rparr>) =
     Inl (LogExit ''format_files is required. Must pass the path to at least one format file and the header_page format file.'')"
  by (simp add: readFormats_def filteredFormatFilePaths_def demoWorld_def demoFlags_def
      TrimSpace_def whiteSpace_def trimLeft.simps HasSuffix_def)

lemma statsLoop_needs_error:
  assumes "\<And>content. snd (CPUOverflowed w content) = None"
  shows "statsLoop w tracePath i names acc = Inr S \<Longrightarrow> S = acc"
proof (induction names arbitrary: i acc)
  case Nil
  then show ?case by simp
next
  case (Cons name names)
  from Cons.prems obtain content where c: "ReadFile w (Join w tracePath name) = Some content"
    by (cases "ReadFile w (Join w tracePath name)") auto
  obtain overflowed err where r: "CPUOverflowed w content = (overflowed, err)"
    by (cases "CPUOverflowed w content")
  with assms [of content] have "err = None" by simp
  with Cons.prems c r have "statsLoop w tracePath (i + 1) names acc = Inr S" by simp
  then show ?case by (rule Cons.IH)
qed

text \<open>
  C1, on the code. The stats directory holds \<open>cpu0\<close>, which reports \<open>overrun: 1\<close> and which
  \<open>CPUOverflowed\<close> reads without error, answering \<open>true\<close>. The converter hands the event-set
  builder an empty set of overflowed CPUs, whether it is given the trace directory or
  the stats directory itself as \<open>--trace_files\<close>.
\<close>

theorem mainOverflowedCPUs_misses_overrun:
  "ReadDir demoWorld (statsFilesPath demoFlags) = Some [''cpu0''] \<and>
   ReadFile demoWorld ''stats/cpu0'' = Some demoStats \<and>
   CPUOverflowed demoWorld demoStats = (True, None) \<and>
   mainOverflowedCPUs demoWorld demoFlags = Inr [] \<and>
   mainOverflowedCPUs demoWorld (demoFlags\<lparr>traceFilesPath := ''stats''\<rparr>) = Inr []"
  by (simp add: mainOverflowedCPUs_def readFormats_def filteredFormatFilePaths_def
      demoWorld_def demoFlags_def TrimSpace_def whiteSpace_def trimLeft.simps HasSuffix_def demoStats_def)

subsection \<open>The event loop of buildSpansByPID\<close>

lemma EventByIndex_append:
  "EventByIndex (pre @ ev # evs) (int (length pre)) = Inr ev"
  by (simp add: EventByIndex_def EventCount_def)

lemma loadEvents_append:
  "loadEvents env (pre @ evs) s (map int [length pre ..< length pre + length evs]) =
   loadEventList env s evs"
proof (induction evs arbitrary: pre s)
  case Nil
  then show ?case by simp
next
  case (Cons ev evs)
  have idx: "[length pre ..< length pre + length (ev # evs)] =
             length pre # [length (pre @ [ev]) ..< length (pre @ [ev]) + length evs]"
    by (subst upt_conv_Cons) simp_all
  have "loadEvents env ((pre @ [ev]) @ evs) s' (map int [length (pre @ [ev]) ..< length (pre @ [ev]) + length evs])
        = loadEventList env s' evs" for s'
    by (rule Cons.IH)
  then show ?case
    unfolding idx by (simp add: EventByIndex_append del: upt_Suc split: sum.splits)
qed

lemma loadEvents_eventIndices:
  "loadEvents env coll s (eventIndices coll) = loadEventList env s coll"
  using loadEvents_append [of env "[]" coll s] by (simp add: eventIndices_def)


lemma addTransitions_length:
  "addTransitions env off ts tts = Inr (ts', tts') \<Longrightarrow> length tts' = length tts"
  by (induction tts arbitrary: ts ts' tts')
     (auto simp: Let_def split: sum.splits prod.splits)

text \<open>One round of the event loop either leaves everything but the loader alone, or uses the event.\<close>

lemma loadEvent_cases:
  assumes "loadEvent env (c, ts, el) ev = Inr (c1, ts1, el1)"
  obtains
    (skip) "\<And>evs. schedEvents env el (ev # evs) = schedEvents env el1 evs" "c1 = c" "ts1 = ts"
  | (use) "\<And>evs. schedEvents env el (ev # evs) = ev # schedEvents env el1 evs"
      "\<not> Clipped ev" "ts1 \<noteq> None"
      "c1 = c\<lparr>normalizationOffset := normalizationOffset c1, startTimestamp := startTimestamp c1,
              endTimestamp := endTimestamp c1, ThreadTransitions := ThreadTransitions c1\<rparr>"
      "normalizationOffset c1 =
         (if normalizationOffset c = UnknownTimestamp env
          then (if normalizeTimestamps (options c) then Timestamp ev else 0)
          else normalizationOffset c)"
      "startTimestamp c1 =
         (if normalizationOffset c = UnknownTimestamp env
          then Timestamp ev - normalizationOffset c1 else startTimestamp c)"
      "endTimestamp c1 = Timestamp ev - normalizationOffset c1"
proof (cases "Clipped ev")
  case True
  with assms show ?thesis by (intro skip) auto
next
  case False
  show ?thesis
  proof (cases "threadTransitions env el ev")
    case (Inl e)
    with False assms show ?thesis by simp
  next
    case (Inr r)
    obtain tts el' where r: "r = (tts, el')" by (cases r)
    show ?thesis
    proof (cases "tts = []")
      case True
      with False Inr r assms show ?thesis by (intro skip) auto
    next
      case nonempty: False
      with False Inr r assms show ?thesis
        by (intro use)
           (auto simp: Let_def NormalizationOffset_def split: if_splits sum.splits prod.splits option.splits)
    qed
  qed
qed


lemma loadEventList_frame:
  "loadEventList env (c, ts, el) evs = Inr (c', ts', el') \<Longrightarrow>
   c' = c\<lparr>normalizationOffset := normalizationOffset c', startTimestamp := startTimestamp c',
          endTimestamp := endTimestamp c', ThreadTransitions := ThreadTransitions c'\<rparr>"
proof (induction evs arbitrary: c ts el)
  case Nil
  then show ?case by simp
next
  case (Cons ev evs)
  from Cons.prems obtain c1 ts1 el1 where
    step: "loadEvent env (c, ts, el) ev = Inr (c1, ts1, el1)" and
    rest: "loadEventList env (c1, ts1, el1) evs = Inr (c', ts', el')"
    by (auto split: sum.splits)
  from Cons.IH [OF rest] have c': "c' = c1\<lparr>normalizationOffset := normalizationOffset c',
      startTimestamp := startTimestamp c', endTimestamp := endTimestamp c',
      ThreadTransitions := ThreadTransitions c'\<rparr>" .
  from step show ?case
  proof (cases rule: loadEvent_cases)
    case skip
    with c' show ?thesis by simp
  next
    case use
    from use(4) c' show ?thesis
      by (cases c, cases c1, cases c') simp
  qed
qed

lemma loadEventList_spanSet:
  "loadEventList env (c, ts, el) evs = Inr (c', ts', el') \<Longrightarrow>
   ts' = None \<longleftrightarrow> ts = None \<and> schedEvents env el evs = []"
proof (induction evs arbitrary: c ts el)
  case Nil
  then show ?case by simp
next
  case (Cons ev evs)
  from Cons.prems obtain c1 ts1 el1 where
    step: "loadEvent env (c, ts, el) ev = Inr (c1, ts1, el1)" and
    rest: "loadEventList env (c1, ts1, el1) evs = Inr (c', ts', el')"
    by (auto split: sum.splits)
  note IH = Cons.IH [OF rest]
  from step show ?case
  proof (cases rule: loadEvent_cases)
    case skip
    with IH show ?thesis by simp
  next
    case use
    with IH show ?thesis by simp
  qed
qed

lemma loadEventList_offset_stable:
  "loadEventList env (c, ts, el) evs = Inr (c', ts', el') \<Longrightarrow>
   normalizationOffset c \<noteq> UnknownTimestamp env \<Longrightarrow>
   normalizationOffset c' = normalizationOffset c"
proof (induction evs arbitrary: c ts el)
  case Nil
  then show ?case by simp
next
  case (Cons ev evs)
  from Cons.prems obtain c1 ts1 el1 where
    step: "loadEvent env (c, ts, el) ev = Inr (c1, ts1, el1)" and
    rest: "loadEventList env (c1, ts1, el1) evs = Inr (c', ts', el')"
    by (auto split: sum.splits)
  from step have "normalizationOffset c1 = normalizationOffset c"
    using Cons.prems(2) by (cases rule: loadEvent_cases) simp_all
  with Cons.IH [OF rest] Cons.prems(2) show ?case by simp
qed

lemma loadEventList_options:
  "loadEventList env (c, ts, el) evs = Inr (c', ts', el') \<Longrightarrow> options c' = options c"
  by (drule loadEventList_frame) (cases c, cases c', simp)

lemma loadEventList_offset_raw:
  "loadEventList env (c, ts, el) evs = Inr (c', ts', el') \<Longrightarrow>
   \<not> normalizeTimestamps (options c) \<Longrightarrow>
   normalizationOffset c = UnknownTimestamp env \<or> normalizationOffset c = 0 \<Longrightarrow>
   (normalizationOffset c' = UnknownTimestamp env \<or> normalizationOffset c' = 0) \<and>
   (schedEvents env el evs \<noteq> [] \<longrightarrow> normalizationOffset c' = 0)"
proof (induction evs arbitrary: c ts el)
  case Nil
  then show ?case by simp
next
  case (Cons ev evs)
  from Cons.prems obtain c1 ts1 el1 where
    step: "loadEvent env (c, ts, el) ev = Inr (c1, ts1, el1)" and
    rest: "loadEventList env (c1, ts1, el1) evs = Inr (c', ts', el')"
    by (auto split: sum.splits)
  from step show ?case
  proof (cases rule: loadEvent_cases)
    case skip
    with Cons.IH [OF rest] Cons.prems show ?thesis by simp
  next
    case use
    from use(4) have o: "options c1 = options c" by (cases c, cases c1) simp
    from use(5) Cons.prems have z: "normalizationOffset c1 = 0" by (auto split: if_splits)
    with Cons.IH [OF rest] o Cons.prems(2) have ih: "normalizationOffset c' = UnknownTimestamp env \<or> normalizationOffset c' = 0"
      by simp
    show ?thesis
    proof (cases "UnknownTimestamp env = 0")
      case True
      with ih show ?thesis by auto
    next
      case False
      with z loadEventList_offset_stable [OF rest] show ?thesis by simp
    qed
  qed
qed




subsection \<open>The projection of buildSpansByCPU\<close>

lemma projectSpans_result:
  "projectSpans env (c, cib) spans = (c', cib') \<Longrightarrow>
   cib' = cib @ filter (known env) spans \<and>
   c' = c\<lparr>cpus := cpus c', pids := pids c'\<rparr> \<and>
   set (cpus c') = set (cpus c) \<union> cpu ` set (filter (known env) spans) \<and>
   set (pids c') = set (pids c) \<union> pid ` set (filter (known env) spans) \<and>
   (distinct (cpus c) \<longrightarrow> distinct (cpus c')) \<and> (distinct (pids c) \<longrightarrow> distinct (pids c'))"
proof (induction spans arbitrary: c cib)
  case Nil
  then show ?case by simp
next
  case (Cons span spans)
  show ?case
  proof (cases "known env span")
    case True
    with Cons.prems
    have "projectSpans env
            (c\<lparr>pids := List.insert (pid span) (pids c), cpus := List.insert (cpu span) (cpus c)\<rparr>,
             addSpan cib span) spans = (c', cib')"
      by (simp add: known_def)
    from Cons.IH [OF this] True show ?thesis
      by (auto simp: addSpan_def)
  next
    case False
    with Cons.prems have "projectSpans env (c, cib) spans = (c', cib')"
      by (auto simp: known_def)
    from Cons.IH [OF this] False show ?thesis by simp
  qed
qed

lemma projectAll_result:
  "projectAll env (c, cib) m = (c', cib') \<Longrightarrow>
   cib' = cib @ projected env m \<and>
   c' = c\<lparr>cpus := cpus c', pids := pids c'\<rparr> \<and>
   set (cpus c') = set (cpus c) \<union> cpu ` set (projected env m) \<and>
   set (pids c') = set (pids c) \<union> pid ` set (projected env m) \<and>
   (distinct (cpus c) \<longrightarrow> distinct (cpus c')) \<and> (distinct (pids c) \<longrightarrow> distinct (pids c'))"
proof (induction m arbitrary: c cib)
  case Nil
  then show ?case by (simp add: projected_def)
next
  case (Cons entry m)
  obtain p spans where entry: "entry = (p, spans)" by (cases entry)
  obtain c1 cib1 where one: "projectSpans env (c, cib) spans = (c1, cib1)"
    by (cases "projectSpans env (c, cib) spans")
  with Cons.prems entry have rest: "projectAll env (c1, cib1) m = (c', cib')" by simp
  from projectSpans_result [OF one] Cons.IH [OF rest] entry show ?case
    by (cases c, cases c1, cases c') (auto simp: projected_def)
qed

lemma indexed_bucket: "indexed (bucket st cib) = {span \<in> set cib. state span = st}"
  by (auto simp: indexed_def bucket_def)

lemma indexed_sorted:
  "indexed (map (\<lambda>(k, spans). (k, sort_key f spans)) idx) = indexed idx"
  by (auto simp: indexed_def)

lemma buildSpansByCPU_result:
  assumes "buildSpansByCPU env c = Inr c'"
  shows "c' = c\<lparr>cpus := cpus c', pids := pids c', runningSpansByCPU := runningSpansByCPU c',
                 sleepingSpansByCPU := sleepingSpansByCPU c', waitingSpansByCPU := waitingSpansByCPU c'\<rparr>"
    and "set (cpus c') = set (cpus c) \<union> cpu ` set (projected env (spansByPID c))"
    and "set (pids c') = set (pids c) \<union> pid ` set (projected env (spansByPID c))"
    and "distinct (cpus c) \<Longrightarrow> distinct (cpus c')"
    and "distinct (pids c) \<Longrightarrow> distinct (pids c')"
    and "indexed (runningSpansByCPU c') = {span \<in> set (projected env (spansByPID c)). state span = RunningState}"
    and "indexed (sleepingSpansByCPU c') = {span \<in> set (projected env (spansByPID c)). state span = SleepingState}"
    and "indexed (waitingSpansByCPU c') = {span \<in> set (projected env (spansByPID c)). state span = WaitingState}"
proof -
  obtain c1 cib where p: "projectAll env (c, newCPUSpanSet) (spansByPID c) = (c1, cib)"
    by (cases "projectAll env (c, newCPUSpanSet) (spansByPID c)")
  from projectAll_result [OF p] have cib: "cib = projected env (spansByPID c)"
    and c1: "c1 = c\<lparr>cpus := cpus c1, pids := pids c1\<rparr>"
    and s1: "set (cpus c1) = set (cpus c) \<union> cpu ` set (projected env (spansByPID c))"
    and s2: "set (pids c1) = set (pids c) \<union> pid ` set (projected env (spansByPID c))"
    and d1: "distinct (cpus c) \<longrightarrow> distinct (cpus c1)"
    and d2: "distinct (pids c) \<longrightarrow> distinct (pids c1)"
    by (simp_all add: newCPUSpanSet_def)
  from assms p obtain running sleeping waiting where
    t: "cpuTrees env cib = Inr (running, sleeping, waiting)" and
    c': "c' = c1\<lparr>runningSpansByCPU := running, sleepingSpansByCPU := sleeping,
                  waitingSpansByCPU := waiting\<rparr>"
    by (auto simp: buildSpansByCPU_def split: sum.splits)
  from t have r: "running = map (\<lambda>(k, spans). (k, sort_key (\<lambda>span. sint (spanStart span)) spans)) (bucket RunningState cib)"
    and sl: "sleeping = bucket SleepingState cib" and wa: "waiting = bucket WaitingState cib"
    by (auto simp: cpuTrees_def split: option.splits)
  from c' c1 show "c' = c\<lparr>cpus := cpus c', pids := pids c', runningSpansByCPU := runningSpansByCPU c',
                 sleepingSpansByCPU := sleepingSpansByCPU c', waitingSpansByCPU := waitingSpansByCPU c'\<rparr>"
    by (cases c, cases c1) simp
  from c' s1 show "set (cpus c') = set (cpus c) \<union> cpu ` set (projected env (spansByPID c))" by simp
  from c' s2 show "set (pids c') = set (pids c) \<union> pid ` set (projected env (spansByPID c))" by simp
  from c' d1 show "distinct (cpus c) \<Longrightarrow> distinct (cpus c')" by simp
  from c' d2 show "distinct (pids c) \<Longrightarrow> distinct (pids c')" by simp
  from c' r cib show "indexed (runningSpansByCPU c') = {span \<in> set (projected env (spansByPID c)). state span = RunningState}"
    by (simp add: indexed_sorted indexed_bucket)
  from c' sl cib show "indexed (sleepingSpansByCPU c') = {span \<in> set (projected env (spansByPID c)). state span = SleepingState}"
    by (simp add: indexed_bucket)
  from c' wa cib show "indexed (waitingSpansByCPU c') = {span \<in> set (projected env (spansByPID c)). state span = WaitingState}"
    by (simp add: indexed_bucket)
qed

subsection \<open>What a construction goes through\<close>

lemma buildSpansByPID_success:
  assumes "buildSpansByPID env c es l = Inr c1"
  obtains el0 c2 ts el spans ts' where
    "newEventLoader env l = Inr el0"
    "traceCollectionError env es = None"
    "loadEventList env (c\<lparr>TraceCollection := Events es\<rparr>, None, el0) (Events es) = Inr (c2, Some ts, el)"
    "threadSpans env ts (endTimestamp c2) = Inr (spans, ts')"
    "c1 = c2\<lparr>stringTable := loaderStringTable env el, spansByPID := spans,
              droppedEventCountsByID := tsDroppedEventCountsByID env ts',
              syntheticTransitionCount := tsSyntheticTransitionCount env ts'\<rparr>"
  using assms
  by (auto simp: buildSpansByPID_def Let_def loadEvents_eventIndices
           split: sum.splits option.splits prod.splits)

lemma NewCollection_success:
  assumes "NewCollection env es opts = Inr c"
  obtains co l c1 where
    "loaders co = Some l"
    "buildSpansByPID env ((emptyCollection env)\<lparr>options := co\<rparr>) es l = Inr c1"
    "buildSpansByCPU env c1 = Inr c"
proof -
  from assms obtain co0 where
    a: "applyOptions opts (options (emptyCollection env)) = Inr co0"
    by (auto simp: NewCollection_def Let_def split: sum.splits)
  show ?thesis
  proof (cases "loaders co0")
    case None
    with assms a obtain l c1 where
      "buildSpansByPID env ((emptyCollection env)\<lparr>options := co0\<lparr>loaders := Some l\<rparr>\<rparr>) es l = Inr c1"
      "buildSpansByCPU env c1 = Inr c"
      by (auto simp: NewCollection_def Let_def split: sum.splits)
    then show ?thesis by (intro that [of "co0\<lparr>loaders := Some l\<rparr>" l c1]) simp_all
  next
    case (Some l)
    with assms a obtain c1 where
      "buildSpansByPID env ((emptyCollection env)\<lparr>options := co0\<rparr>) es l = Inr c1"
      "buildSpansByCPU env c1 = Inr c"
      by (auto simp: NewCollection_def Let_def split: sum.splits)
    with Some show ?thesis by (intro that [of co0 l c1]) simp_all
  qed
qed

text \<open>What a successful construction has gone through.\<close>

lemma NewCollection_run:
  assumes "NewCollection env es opts = Inr c"
  obtains l el0 c2 ts el where
    "loaders (options c) = Some l"
    "newEventLoader env l = Inr el0"
    "traceCollectionError env es = None"
    "loadEventList env ((emptyCollection env)\<lparr>options := options c, TraceCollection := Events es\<rparr>, None, el0)
       (Events es) = Inr (c2, Some ts, el)"
    "normalizationOffset c = normalizationOffset c2"
    "startTimestamp c = startTimestamp c2"
    "endTimestamp c = endTimestamp c2"
    "TraceCollection c = Events es"
    "\<exists>ts'. threadSpans env ts (endTimestamp c2) = Inr (spansByPID c, ts') \<and>
           droppedEventCountsByID c = tsDroppedEventCountsByID env ts' \<and>
           syntheticTransitionCount c = tsSyntheticTransitionCount env ts'"
    "set (cpus c) = cpu ` set (projected env (spansByPID c))"
    "set (pids c) = pid ` set (projected env (spansByPID c))"
    "distinct (cpus c)" "distinct (pids c)"
proof -
  from assms obtain co l c1 where
    l: "loaders co = Some l" and
    b: "buildSpansByPID env ((emptyCollection env)\<lparr>options := co\<rparr>) es l = Inr c1" and
    p: "buildSpansByCPU env c1 = Inr c"
    by (rule NewCollection_success)
  from b obtain el0 c2 ts el spans ts' where
    el0: "newEventLoader env l = Inr el0" and
    tc: "traceCollectionError env es = None" and
    run: "loadEventList env ((emptyCollection env)\<lparr>options := co, TraceCollection := Events es\<rparr>, None, el0)
            (Events es) = Inr (c2, Some ts, el)" and
    sp: "threadSpans env ts (endTimestamp c2) = Inr (spans, ts')" and
    c1: "c1 = c2\<lparr>stringTable := loaderStringTable env el, spansByPID := spans,
              droppedEventCountsByID := tsDroppedEventCountsByID env ts',
              syntheticTransitionCount := tsSyntheticTransitionCount env ts'\<rparr>"
    by (rule buildSpansByPID_success) simp
  note fr = loadEventList_frame [OF run]
  from fr have c2o: "options c2 = co" "TraceCollection c2 = Events es" "cpus c2 = []" "pids c2 = []"
    by (cases c2, simp add: emptyCollection_def)+
  note r = buildSpansByCPU_result [OF p]
  from r(1) c1 c2o have co: "options c = co" and tcc: "TraceCollection c = Events es"
    and no: "normalizationOffset c = normalizationOffset c2"
    and st: "startTimestamp c = startTimestamp c2"
    and en: "endTimestamp c = endTimestamp c2"
    and sb: "spansByPID c = spans"
    and dr: "droppedEventCountsByID c = tsDroppedEventCountsByID env ts'"
    and sy: "syntheticTransitionCount c = tsSyntheticTransitionCount env ts'"
    by (cases c, cases c1, simp)+
  from c1 have sb1: "spansByPID c1 = spans" "cpus c1 = cpus c2" "pids c1 = pids c2" by simp_all
  show ?thesis
  proof (rule that [of l el0 c2 ts el])
    show "loaders (options c) = Some l" using co l by simp
    show "newEventLoader env l = Inr el0" by fact
    show "traceCollectionError env es = None" by fact
    show "loadEventList env ((emptyCollection env)\<lparr>options := options c, TraceCollection := Events es\<rparr>, None, el0)
       (Events es) = Inr (c2, Some ts, el)" using run co by simp
    show "normalizationOffset c = normalizationOffset c2" by fact
    show "startTimestamp c = startTimestamp c2" by fact
    show "endTimestamp c = endTimestamp c2" by fact
    show "TraceCollection c = Events es" by fact
    show "\<exists>ts'. threadSpans env ts (endTimestamp c2) = Inr (spansByPID c, ts') \<and>
           droppedEventCountsByID c = tsDroppedEventCountsByID env ts' \<and>
           syntheticTransitionCount c = tsSyntheticTransitionCount env ts'"
      using sp sb dr sy by auto
    show "set (cpus c) = cpu ` set (projected env (spansByPID c))"
      using r(2) sb1 c2o sb by simp
    show "set (pids c) = pid ` set (projected env (spansByPID c))"
      using r(3) sb1 c2o sb by simp
    show "distinct (cpus c)" using r(4) sb1 c2o by simp
    show "distinct (pids c)" using r(5) sb1 c2o by simp
  qed
qed



text \<open>Runs of the instance.\<close>

lemmas demo_defs = NewCollection_def buildSpansByPID_def buildSpansByCPU_def demoEnv_def
  emptyCollection_def NormalizeTimestamps_def switchEvent_def demoTransitions_def demoSpans_def
  eventIndices_def EventByIndex_def EventCount_def Let_def NormalizationOffset_def
  cpuTrees_def bucket_def newCPUSpanSet_def addSpan_def

lemma demo_run:
  "\<exists>c. NewCollection demoEnv demoEventSet [NormalizeTimestamps True] = Inr c \<and>
       normalizeTimestamps (options c) \<and> normalizationOffset c = 5000000000 \<and>
       startTimestamp c = 0 \<and> endTimestamp c = 2000 \<and>
       cpus c = [0] \<and> pids c = [100] \<and>
       map fst (spansByPID c) = [100, 400] \<and>
       TraceCollection c = Events demoEventSet"
  by (simp add: demo_defs demoEventSet_def upt_rec)

lemma demo_run_raw:
  "\<exists>c. NewCollection demoEnv demoEventSet [] = Inr c \<and>
       \<not> normalizeTimestamps (options c) \<and> normalizationOffset c = 0"
  by (simp add: demo_defs demoEventSet_def upt_rec)

lemma demo_sched:
  "schedEvents demoEnv () (Events demoEventSet) =
     [switchEvent 0 0 5000000000 False 100, switchEvent 3 (- 1) 5000002000 False 400]"
  by (simp add: demoEnv_def demoEventSet_def switchEvent_def demoTransitions_def)

subsection \<open>Traces without usable events\<close>

lemma schedEvents_all_clipped: "\<forall>ev\<in>set evs. Clipped ev \<Longrightarrow> schedEvents env el evs = []"
  by (induction evs) auto

lemma loadEventList_no_usable:
  "\<forall>ev\<in>set evs. Clipped ev \<or> (\<forall>el. \<exists>r. threadTransitions env el ev = Inr r) \<Longrightarrow>
   schedEvents env el evs = [] \<Longrightarrow>
   \<exists>el'. loadEventList env (c, ts, el) evs = Inr (c, ts, el')"
proof (induction evs arbitrary: el)
  case Nil
  then show ?case by simp
next
  case (Cons ev evs)
  show ?case
  proof (cases "Clipped ev")
    case True
    with Cons.prems Cons.IH [of el] show ?thesis by simp
  next
    case False
    with Cons.prems obtain tts el1 where t: "threadTransitions env el ev = Inr (tts, el1)"
      by (metis list.set_intros(1) surj_pair)
    with False Cons.prems(2) have e: "tts = []" and s: "schedEvents env el1 evs = []"
      by (auto split: if_splits)
    from Cons.prems(1) s Cons.IH [of el1] obtain el' where
      "loadEventList env (c, ts, el1) evs = Inr (c, ts, el')" by auto
    with False t e show ?thesis by simp
  qed
qed

lemma NewCollection_unusable:
  assumes opts: "applyOptions opts (options (emptyCollection env)) = Inr co"
    and l: "loaders co = Some l \<or> loaders co = None \<and> EventLoader env (DefaultLoadersType es) = Inr l"
    and el0: "newEventLoader env l = Inr el0"
    and tc: "traceCollectionError env es = None"
    and ok: "\<forall>ev\<in>set (Events es). Clipped ev \<or> (\<forall>el. \<exists>r. threadTransitions env el ev = Inr r)"
    and none: "schedEvents env el0 (Events es) = []"
  shows "NewCollection env es opts = Inl (StatusError InvalidArgument ''no usable events in collection'')"
proof -
  define co' where "co' = (if loaders co = None then co\<lparr>loaders := Some l\<rparr> else co)"
  let ?c = "(emptyCollection env)\<lparr>options := co'\<rparr>"
  from loadEventList_no_usable [OF ok none, of "?c\<lparr>TraceCollection := Events es\<rparr>" None]
  obtain el' where "loadEventList env (?c\<lparr>TraceCollection := Events es\<rparr>, None, el0) (Events es)
      = Inr (?c\<lparr>TraceCollection := Events es\<rparr>, None, el')"
    by blast
  with el0 tc have "buildSpansByPID env ?c es l
      = Inl (StatusError InvalidArgument ''no usable events in collection'')"
    by (simp add: buildSpansByPID_def Let_def loadEvents_eventIndices)
  with opts l show ?thesis
    by (auto simp: NewCollection_def Let_def co'_def)
qed

text \<open>
  C2, as amended. A construction that succeeds has met a usable event, so
  \<open>NewCollection\<close> returns an error and no collection whenever no usable event survives;
  in particular it returns an error for an event set with no events and for one whose
  events are all clipped. When the options, the loaders and the trace collection were
  set up without error, and every event is clipped or the loader rejects no event and
  none is usable, the error is the empty-collection error. The converse does not hold:
  \<open>NewCollection\<close> also returns the errors of its options and collaborators.
\<close>

theorem NewCollection_no_usable_events:
  "(NewCollection env es opts = Inr c \<longrightarrow>
      (\<exists>l el0. loaders (options c) = Some l \<and> newEventLoader env l = Inr el0 \<and>
                schedEvents env el0 (Events es) \<noteq> [])) \<and>
   ((\<forall>ev\<in>set (Events es). Clipped ev) \<longrightarrow> (\<exists>e. NewCollection env es opts = Inl e)) \<and>
   (applyOptions opts (options (emptyCollection env)) = Inr co \<and>
    (loaders co = Some l \<or> loaders co = None \<and> EventLoader env (DefaultLoadersType es) = Inr l) \<and>
    newEventLoader env l = Inr el0 \<and> traceCollectionError env es = None \<and>
    ((\<forall>ev\<in>set (Events es). Clipped ev) \<or>
     (\<forall>ev\<in>set (Events es). \<forall>el. \<exists>r. threadTransitions env el ev = Inr r) \<and>
     schedEvents env el0 (Events es) = [])
    \<longrightarrow> NewCollection env es opts =
          Inl (StatusError InvalidArgument ''no usable events in collection''))"
proof (intro conjI impI)
  assume s: "NewCollection env es opts = Inr c"
  then obtain l el0 c2 ts el where
    l: "loaders (options c) = Some l" and el0: "newEventLoader env l = Inr el0" and
    run: "loadEventList env
            ((emptyCollection env)\<lparr>options := options c, TraceCollection := Events es\<rparr>, None, el0)
            (Events es) = Inr (c2, Some ts, el)"
    by (rule NewCollection_run)
  from loadEventList_spanSet [OF run] have "schedEvents env el0 (Events es) \<noteq> []" by simp
  with l el0 show "\<exists>l el0. loaders (options c) = Some l \<and> newEventLoader env l = Inr el0 \<and>
                schedEvents env el0 (Events es) \<noteq> []" by blast
next
  assume cl: "\<forall>ev\<in>set (Events es). Clipped ev"
  show "\<exists>e. NewCollection env es opts = Inl e"
  proof (cases "NewCollection env es opts")
    case (Inl e)
    then show ?thesis by blast
  next
    case (Inr c')
    then obtain l el0 c2 ts el where
      run: "loadEventList env
            ((emptyCollection env)\<lparr>options := options c', TraceCollection := Events es\<rparr>, None, el0)
            (Events es) = Inr (c2, Some ts, el)"
      by (rule NewCollection_run)
    from loadEventList_spanSet [OF run] schedEvents_all_clipped [OF cl, of env el0]
    show ?thesis by simp
  qed
next
  assume a: "applyOptions opts (options (emptyCollection env)) = Inr co \<and>
    (loaders co = Some l \<or> loaders co = None \<and> EventLoader env (DefaultLoadersType es) = Inr l) \<and>
    newEventLoader env l = Inr el0 \<and> traceCollectionError env es = None \<and>
    ((\<forall>ev\<in>set (Events es). Clipped ev) \<or>
     (\<forall>ev\<in>set (Events es). \<forall>el. \<exists>r. threadTransitions env el ev = Inr r) \<and>
     schedEvents env el0 (Events es) = [])"
  then have ok: "\<forall>ev\<in>set (Events es). Clipped ev \<or> (\<forall>el. \<exists>r. threadTransitions env el ev = Inr r)"
    by blast
  from a have none: "schedEvents env el0 (Events es) = []"
    using schedEvents_all_clipped [of "Events es" env el0] by blast
  from a show "NewCollection env es opts =
          Inl (StatusError InvalidArgument ''no usable events in collection'')"
    by (intro NewCollection_unusable [OF _ _ _ _ ok none]) blast+
qed

theorem NewCollection_no_usable_events_witness:
  "Events demoClippedSet = [switchEvent 0 0 5 True 100] \<and>
   Clipped (switchEvent 0 0 5 True 100) \<and>
   NewCollection demoEnv demoClippedSet [NormalizeTimestamps True] =
     Inl (StatusError InvalidArgument ''no usable events in collection'') \<and>
   (\<exists>c. NewCollection demoEnv demoEventSet [NormalizeTimestamps True] = Inr c \<and>
        schedEvents demoEnv () (Events demoEventSet) \<noteq> [])"
proof -
  have cl: "\<forall>ev\<in>set (Events demoClippedSet). Clipped ev"
    by (simp add: demoClippedSet_def switchEvent_def)
  have "applyOptions [NormalizeTimestamps True] (options (emptyCollection demoEnv))
          = Inr \<lparr>loaders = None, normalizeTimestamps = True\<rparr> \<and>
        (loaders \<lparr>loaders = None, normalizeTimestamps = True\<rparr> = Some () \<or>
         loaders \<lparr>loaders = None, normalizeTimestamps = True\<rparr> = None \<and>
         EventLoader demoEnv (DefaultLoadersType demoClippedSet) = Inr ()) \<and>
        newEventLoader demoEnv () = Inr () \<and> traceCollectionError demoEnv demoClippedSet = None"
    by (simp add: emptyCollection_def NormalizeTimestamps_def demoEnv_def)
  with cl NewCollection_no_usable_events
    [of demoEnv demoClippedSet "[NormalizeTimestamps True]" _
        "\<lparr>loaders = None, normalizeTimestamps = True\<rparr>" "()" "()"]
  have e: "NewCollection demoEnv demoClippedSet [NormalizeTimestamps True] =
     Inl (StatusError InvalidArgument ''no usable events in collection'')"
    by blast
  from demo_run obtain c where
    c: "NewCollection demoEnv demoEventSet [NormalizeTimestamps True] = Inr c" by blast
  with NewCollection_no_usable_events
    [of demoEnv demoEventSet "[NormalizeTimestamps True]" c]
  have "schedEvents demoEnv () (Events demoEventSet) \<noteq> []"
    by (auto simp: demoEnv_def)
  with e c show ?thesis
    by (auto simp: demoClippedSet_def switchEvent_def)
qed

text \<open>
  The claim C2 as it is written fails in the direction "only when": with an option that
  returns an error, \<open>NewCollection\<close> returns that error for a trace that has usable events.
\<close>

theorem NewCollection_error_counterexample:
  "NewCollection demoEnv demoEventSet [demoFailingOption] = Inl (Collaborator ''option rejected'') \<and>
   newEventLoader demoEnv () = Inr () \<and>
   schedEvents demoEnv () (Events demoEventSet) =
     [switchEvent 0 0 5000000000 False 100, switchEvent 3 (- 1) 5000002000 False 400]"
  by (simp add: NewCollection_def demoFailingOption_def emptyCollection_def demo_sched)
     (simp add: demoEnv_def)

subsection \<open>Clipped events, raw events and the CPU indexes\<close>



lemma NewCollection_TraceCollection:
  "NewCollection env es opts = Inr c \<Longrightarrow> TraceCollection c = Events es"
  by (erule NewCollection_run)

lemma adjustEvents_result:
  "adjustEvents c acc idxs = Inr events \<Longrightarrow>
   (\<forall>i\<in>set idxs. 0 \<le> i \<and> i < EventCount (TraceCollection c)) \<and>
   events = acc @ map (\<lambda>i. (TraceCollection c ! nat i)
      \<lparr>Timestamp := Timestamp (TraceCollection c ! nat i) - normalizationOffset c\<rparr>) idxs"
proof (induction idxs arbitrary: acc)
  case Nil
  then show ?case by simp
next
  case (Cons i idxs)
  from Cons.prems have r: "0 \<le> i \<and> i < EventCount (TraceCollection c)"
    by (auto simp: EventByIndex_def split: if_splits)
  with Cons.prems have "adjustEvents c
      (acc @ [(TraceCollection c ! nat i)
         \<lparr>Timestamp := Timestamp (TraceCollection c ! nat i) - normalizationOffset c\<rparr>]) idxs
      = Inr events"
    by (simp add: EventByIndex_def)
  from Cons.IH [OF this] r show ?case by simp
qed

lemma NewCollection_offset_raw:
  assumes "NewCollection env es opts = Inr c" "\<not> normalizeTimestamps (options c)"
  shows "normalizationOffset c = 0"
proof -
  from assms(1) obtain l el0 c2 ts el where
    run: "loadEventList env
            ((emptyCollection env)\<lparr>options := options c, TraceCollection := Events es\<rparr>, None, el0)
            (Events es) = Inr (c2, Some ts, el)" and
    no: "normalizationOffset c = normalizationOffset c2"
    by (rule NewCollection_run)
  from loadEventList_spanSet [OF run] have "schedEvents env el0 (Events es) \<noteq> []" by simp
  with loadEventList_offset_raw [OF run] assms(2) no show ?thesis
    by (simp add: emptyCollection_def)
qed

text \<open>
  C6. When \<open>GetRawEvents\<close> succeeds, the events it returns are, index by index of
  \<open>EventIndices\<close>, the stored events with \<open>NormalizationOffset\<close> subtracted from their
  timestamps and nothing else changed; every such index is an index of the trace
  collection. For a collection constructed with normalization disabled the offset is 0
  and the events are returned as they are stored.
\<close>

theorem GetRawEvents_normalized:
  assumes "GetRawEvents penv c filters = Inr events"
  shows "\<exists>pcc. NewPerCPUCollection penv c cpuLookupFunc = Inr pcc \<and>
     (\<forall>i\<in>set (EventIndices penv pcc filters). 0 \<le> i \<and> i < EventCount (TraceCollection c)) \<and>
     events = map (\<lambda>i. (TraceCollection c ! nat i)
                \<lparr>Timestamp := Timestamp (TraceCollection c ! nat i) - NormalizationOffset c\<rparr>)
              (EventIndices penv pcc filters) \<and>
     (NewCollection env es opts = Inr c \<and> \<not> normalizeTimestamps (options c) \<longrightarrow>
        NormalizationOffset c = 0 \<and>
        events = map (\<lambda>i. TraceCollection c ! nat i) (EventIndices penv pcc filters))"
proof -
  from assms obtain pcc where
    pcc: "NewPerCPUCollection penv c cpuLookupFunc = Inr pcc" and
    adj: "adjustEvents c [] (EventIndices penv pcc filters) = Inr events"
    by (auto simp: GetRawEvents_def split: sum.splits)
  note r = adjustEvents_result [OF adj]
  have raw: "NormalizationOffset c = 0 \<and>
        events = map (\<lambda>i. TraceCollection c ! nat i) (EventIndices penv pcc filters)"
    if "NewCollection env es opts = Inr c" "\<not> normalizeTimestamps (options c)"
    using NewCollection_offset_raw [OF that] r by (simp add: NormalizationOffset_def)
  from pcc r raw show ?thesis
    by (intro exI [of _ pcc]) (simp add: NormalizationOffset_def)
qed


lemma demo_raw_events:
  assumes "TraceCollection c = Events demoEventSet"
  shows "\<exists>events. GetRawEvents demoPerCPU c [] = Inr events \<and>
     map Timestamp events =
       [5000000000 - normalizationOffset c, 5000000700 - normalizationOffset c,
        5000002000 - normalizationOffset c] \<and>
     map Index events = [0, 2, 3]"
  using assms
  by (simp add: GetRawEvents_def demoPerCPU_def cpuLookupFunc_def demoEventSet_def
      switchEvent_def EventByIndex_def EventCount_def)

theorem GetRawEvents_normalized_witness:
  "(\<exists>c events. NewCollection demoEnv demoEventSet [NormalizeTimestamps True] = Inr c \<and>
      GetRawEvents demoPerCPU c [] = Inr events \<and> NormalizationOffset c = 5000000000 \<and>
      map Timestamp events = [0, 700, 2000]) \<and>
   (\<exists>c events. NewCollection demoEnv demoEventSet [] = Inr c \<and>
      \<not> normalizeTimestamps (options c) \<and>
      GetRawEvents demoPerCPU c [] = Inr events \<and>
      map Timestamp events = [5000000000, 5000000700, 5000002000])"
proof (intro conjI)
  from demo_run obtain c where
    c: "NewCollection demoEnv demoEventSet [NormalizeTimestamps True] = Inr c" and
    n: "normalizationOffset c = 5000000000" by blast
  from demo_raw_events [OF NewCollection_TraceCollection [OF c]] n obtain events where
    g: "GetRawEvents demoPerCPU c [] = Inr events" and
    t: "map Timestamp events = [0, 700, 2000]" by auto
  from GetRawEvents_normalized [OF g] c n g t
  show "\<exists>c events. NewCollection demoEnv demoEventSet [NormalizeTimestamps True] = Inr c \<and>
      GetRawEvents demoPerCPU c [] = Inr events \<and> NormalizationOffset c = 5000000000 \<and>
      map Timestamp events = [0, 700, 2000]"
    by (intro exI [of _ c] exI [of _ events]) (simp add: NormalizationOffset_def)
next
  from demo_run_raw obtain c where
    c: "NewCollection demoEnv demoEventSet [] = Inr c" and
    r: "\<not> normalizeTimestamps (options c)" by blast
  from demo_raw_events [OF NewCollection_TraceCollection [OF c]] obtain events where
    g: "GetRawEvents demoPerCPU c [] = Inr events" and
    t: "map Timestamp events =
       [5000000000 - normalizationOffset c, 5000000700 - normalizationOffset c,
        5000002000 - normalizationOffset c]" by auto
  from GetRawEvents_normalized [OF g, of demoEnv demoEventSet "[]"] c r
  have "NormalizationOffset c = 0" by blast
  with t have "map Timestamp events = [5000000000, 5000000700, 5000002000]"
    by (simp add: NormalizationOffset_def)
  with c r g
  show "\<exists>c events. NewCollection demoEnv demoEventSet [] = Inr c \<and>
      \<not> normalizeTimestamps (options c) \<and>
      GetRawEvents demoPerCPU c [] = Inr events \<and>
      map Timestamp events = [5000000000, 5000000700, 5000002000]"
    by (intro exI [of _ c] exI [of _ events]) simp
qed

lemma NewCollection_indexes:
  assumes "NewCollection env es opts = Inr c"
  shows "indexed (runningSpansByCPU c) =
           {span \<in> set (projected env (spansByPID c)). state span = RunningState}"
    and "indexed (sleepingSpansByCPU c) =
           {span \<in> set (projected env (spansByPID c)). state span = SleepingState}"
    and "indexed (waitingSpansByCPU c) =
           {span \<in> set (projected env (spansByPID c)). state span = WaitingState}"
proof -
  from assms obtain co l c1 where p: "buildSpansByCPU env c1 = Inr c"
    by (rule NewCollection_success)
  note r = buildSpansByCPU_result [OF p]
  from r(1) have "spansByPID c = spansByPID c1" by (cases c, cases c1) simp
  with r(6-8) show
    "indexed (runningSpansByCPU c) =
           {span \<in> set (projected env (spansByPID c)). state span = RunningState}"
    "indexed (sleepingSpansByCPU c) =
           {span \<in> set (projected env (spansByPID c)). state span = SleepingState}"
    "indexed (waitingSpansByCPU c) =
           {span \<in> set (projected env (spansByPID c)). state span = WaitingState}"
    by simp_all
qed

text \<open>
  C7. After construction, every span in the running, sleeping and waiting indexes has a
  known CPU and a known PID and is a span of the per-PID map; a span of the per-PID map
  whose CPU or PID is unknown is in none of the indexes, while the per-PID map is the
  one that the span set returned, with nothing removed; and the cached sets \<open>cpus\<close> and
  \<open>pids\<close> hold exactly the CPUs and the PIDs of the projected spans, each once.
\<close>

theorem NewCollection_projection:
  assumes "NewCollection env es opts = Inr c"
  shows "(\<forall>span \<in> indexed (runningSpansByCPU c) \<union> indexed (sleepingSpansByCPU c) \<union>
                 indexed (waitingSpansByCPU c).
            cpu span \<noteq> UnknownCPU env \<and> pid span \<noteq> UnknownPID env \<and>
            span \<in> set (concat (map snd (spansByPID c)))) \<and>
         (\<forall>span \<in> set (concat (map snd (spansByPID c))).
            cpu span = UnknownCPU env \<or> pid span = UnknownPID env \<longrightarrow>
            span \<notin> indexed (runningSpansByCPU c) \<union> indexed (sleepingSpansByCPU c) \<union>
                   indexed (waitingSpansByCPU c)) \<and>
         (\<exists>ts e ts'. threadSpans env ts e = Inr (spansByPID c, ts')) \<and>
         set (cpus c) = cpu ` set (projected env (spansByPID c)) \<and>
         set (pids c) = pid ` set (projected env (spansByPID c)) \<and>
         distinct (cpus c) \<and> distinct (pids c)"
proof -
  note i = NewCollection_indexes [OF assms]
  from assms obtain l el0 c2 ts el where
    "loaders (options c) = Some l" "newEventLoader env l = Inr el0"
    "loadEventList env
       ((emptyCollection env)\<lparr>options := options c, TraceCollection := Events es\<rparr>, None, el0)
       (Events es) = Inr (c2, Some ts, el)" and
    sp: "\<exists>ts'. threadSpans env ts (endTimestamp c2) = Inr (spansByPID c, ts') \<and>
           droppedEventCountsByID c = tsDroppedEventCountsByID env ts' \<and>
           syntheticTransitionCount c = tsSyntheticTransitionCount env ts'" and
    s: "set (cpus c) = cpu ` set (projected env (spansByPID c))"
       "set (pids c) = pid ` set (projected env (spansByPID c))"
       "distinct (cpus c)" "distinct (pids c)"
    by (rule NewCollection_run)
  from sp have "\<exists>ts e ts'. threadSpans env ts e = Inr (spansByPID c, ts')" by blast
  with i s show ?thesis
    by (auto simp: projected_def known_def)
qed

theorem NewCollection_projection_witness:
  "\<exists>c. NewCollection demoEnv demoEventSet [NormalizeTimestamps True] = Inr c \<and>
       map fst (spansByPID c) = [100, 400] \<and> cpus c = [0] \<and> pids c = [100] \<and>
       (\<forall>span \<in> indexed (runningSpansByCPU c). cpu span \<noteq> - 1 \<and> pid span \<noteq> - 1)"
proof -
  from demo_run obtain c where
    c: "NewCollection demoEnv demoEventSet [NormalizeTimestamps True] = Inr c" and
    f: "map fst (spansByPID c) = [100, 400]" "cpus c = [0]" "pids c = [100]"
    by (elim exE conjE)
  from NewCollection_projection [OF c]
  have "\<forall>span \<in> indexed (runningSpansByCPU c). cpu span \<noteq> - 1 \<and> pid span \<noteq> - 1"
    by (simp add: demoEnv_def)
  with c f show ?thesis by (intro exI [of _ c]) simp
qed

subsection \<open>Dropped events\<close>
















subsection \<open>Normalized timestamps and clipped events among the raw events\<close>












text \<open>White space that is not ASCII is trimmed from the format paths as well.\<close>

lemma filteredFormatFilePaths_unicode:
  "filteredFormatFilePaths
     (demoFlags\<lparr>formatFilePaths :=
        [CHR 0xC2, CHR 0xA0] @ ''fmt/header_page'' @ [CHR 0xE2, CHR 0x80, CHR 0x83] @
        '','' @ [CHR 0xE3, CHR 0x80, CHR 0x80] @ '',fmt/sched_switch''\<rparr>) =
   [''fmt/header_page'', ''fmt/sched_switch'']"
  by (simp add: filteredFormatFilePaths_def TrimSpace_def whiteSpace_def trimLeft.simps)

end
